theory Spec2Isabelle
  imports Main "HOL-Library.Char_ord" "HOL-Library.List_Lexorder"
begin

section \<open>Go strings: bytes, runes and the library calls the program makes\<close>

text \<open>
  A Go string is a sequence of bytes, here a \<open>string\<close> (a list of 8-bit \<open>char\<close>s).
  A rune is a code point, here a natural number. The functions of this section are the
  parts of Go's \<open>unicode/utf8\<close>, \<open>unicode\<close> and \<open>strings\<close> packages that
  \<open>NewField\<close>, \<open>ParseFields\<close> and \<open>modifyFirstLetter\<close> call.
\<close>

abbreviation byte :: "char \<Rightarrow> nat" where
  "byte c \<equiv> of_char c"

definition RuneError :: nat where
  "RuneError = 0xFFFD"

definition RuneSelf :: nat where
  "RuneSelf = 0x80"

definition UTFMax :: nat where
  "UTFMax = 4"

text \<open>
  \<open>utf8.DecodeRuneInString\<close>: the first rune of \<open>s\<close> and its width in bytes;
  \<open>(RuneError, 0)\<close> for the empty string and \<open>(RuneError, 1)\<close> for an encoding that
  is invalid, truncated, not the shortest, a surrogate or out of range. The masks
  \<open>s0 & mask2\<close>, \<open>s1 & maskx\<close> and the shifts of the Go code are written as
  \<open>mod\<close> and multiplication: \<open>rune2 s0 s1\<close> is
  \<open>rune(s0&mask2)<<6 | rune(s1&maskx)\<close>, and so on.
\<close>

definition rune2 :: "nat \<Rightarrow> nat \<Rightarrow> nat" where
  "rune2 s0 s1 = (s0 mod 32) * 64 + s1 mod 64"

definition rune3 :: "nat \<Rightarrow> nat \<Rightarrow> nat \<Rightarrow> nat" where
  "rune3 s0 s1 s2 = (s0 mod 16) * 4096 + (s1 mod 64) * 64 + s2 mod 64"

definition rune4 :: "nat \<Rightarrow> nat \<Rightarrow> nat \<Rightarrow> nat \<Rightarrow> nat" where
  "rune4 s0 s1 s2 s3 =
     (s0 mod 8) * 262144 + (s1 mod 64) * 4096 + (s2 mod 64) * 64 + s3 mod 64"

fun DecodeRuneInString :: "string \<Rightarrow> nat \<times> nat" where
  "DecodeRuneInString [] = (RuneError, 0)"
| "DecodeRuneInString (c0 # rest) =
    (let s0 = byte c0 in
     if s0 < RuneSelf then (s0, 1)
     else if s0 < 0xC2 \<or> 0xF4 < s0 then (RuneError, 1)
     else
       let sz = (if s0 < 0xE0 then 2 else if s0 < 0xF0 then 3 else (4::nat));
           lo = (if s0 = 0xE0 then 0xA0 else if s0 = 0xF0 then 0x90 else 0x80);
           hi = (if s0 = 0xED then 0x9F else if s0 = 0xF4 then 0x8F else 0xBF)
       in
       if Suc (length rest) < sz then (RuneError, 1)
       else
         let s1 = byte (rest ! 0) in
         if s1 < lo \<or> hi < s1 then (RuneError, 1)
         else if sz = 2 then (rune2 s0 s1, 2)
         else
           let s2 = byte (rest ! 1) in
           if s2 < 0x80 \<or> 0xBF < s2 then (RuneError, 1)
           else if sz = 3 then (rune3 s0 s1 s2, 3)
           else
             let s3 = byte (rest ! 2) in
             if s3 < 0x80 \<or> 0xBF < s3 then (RuneError, 1)
             else (rune4 s0 s1 s2 s3, 4))"

text \<open>\<open>utf8.RuneStart\<close>: the byte is not a continuation byte.\<close>

definition RuneStart :: "nat \<Rightarrow> bool" where
  "RuneStart b = (\<not> (0x80 \<le> b \<and> b < 0xC0))"

text \<open>
  The backward scan of \<open>utf8.DecodeLastRuneInString\<close>:
  \<open>for start--; start >= lim; start-- { if RuneStart(s[start]) { break } }\<close>,
  entered with \<open>start\<close> already decremented; \<open>lim\<close> is never negative there.
\<close>

function scanBack :: "string \<Rightarrow> int \<Rightarrow> int \<Rightarrow> int" where
  "scanBack s lim start =
     (if lim \<le> start
      then (if RuneStart (byte (s ! nat start)) then start else scanBack s lim (start - 1))
      else start)"
  by pat_completeness auto
termination
  by (relation "measure (\<lambda>(s, lim, start). nat (start + 1 - lim))") auto

declare scanBack.simps [simp del]

definition DecodeLastRuneInString :: "string \<Rightarrow> nat \<times> nat" where
  "DecodeLastRuneInString s =
     (let n = length s in
      if n = 0 then (RuneError, 0)
      else
        let r = byte (s ! (n - 1)) in
        if r < RuneSelf then (r, 1)
        else
          let lim = (if int n - int UTFMax < 0 then 0 else int n - int UTFMax);
              start0 = scanBack s lim (int n - 2);
              start = (if start0 < 0 then 0 else nat start0)
          in case DecodeRuneInString (drop start s) of
               (r', wid) \<Rightarrow> if start + wid \<noteq> n then (RuneError, 1) else (r', wid))"

text \<open>
  \<open>utf8.EncodeRune\<close>, which is also the conversion \<open>string(r)\<close> of a rune: a rune
  out of range or a surrogate is encoded as \<open>RuneError\<close>, the bytes EF BF BD.
\<close>

definition EncodeRune :: "nat \<Rightarrow> string" where
  "EncodeRune r =
     (if r \<le> 0x7F then [char_of r]
      else if r \<le> 0x7FF then [char_of (0xC0 + r div 64), char_of (0x80 + r mod 64)]
      else if 0x10FFFF < r \<or> (0xD800 \<le> r \<and> r \<le> 0xDFFF)
        then [CHR 0xEF, CHR 0xBF, CHR 0xBD]
      else if r \<le> 0xFFFF
        then [char_of (0xE0 + r div 4096), char_of (0x80 + (r div 64) mod 64),
              char_of (0x80 + r mod 64)]
      else [char_of (0xF0 + r div 262144), char_of (0x80 + (r div 4096) mod 64),
            char_of (0x80 + (r div 64) mod 64), char_of (0x80 + r mod 64)])"

text \<open>A rune that has a UTF-8 encoding: in range and not a surrogate.\<close>

definition ValidRune :: "nat \<Rightarrow> bool" where
  "ValidRune r = (r < 0xD800 \<or> (0xE000 \<le> r \<and> r \<le> 0x10FFFF))"

text \<open>
  \<open>unicode.IsSpace\<close>: the Latin-1 switch, and above Latin-1 the \<open>White_Space\<close>
  range table.
\<close>

definition IsSpace :: "nat \<Rightarrow> bool" where
  "IsSpace r =
     (if r \<le> 0xFF
      then r = 9 \<or> r = 10 \<or> r = 11 \<or> r = 12 \<or> r = 13 \<or> r = 32 \<or> r = 0x85 \<or> r = 0xA0
      else r = 0x1680 \<or> (0x2000 \<le> r \<and> r \<le> 0x200A) \<or> r = 0x2028 \<or> r = 0x2029
           \<or> r = 0x202F \<or> r = 0x205F \<or> r = 0x3000)"

lemma DecodeRuneInString_width:
  "s \<noteq> [] \<Longrightarrow> 1 \<le> snd (DecodeRuneInString s) \<and> snd (DecodeRuneInString s) \<le> 4"
  by (cases s) (simp_all add: Let_def)

lemma scanBack_le: "scanBack s lim start \<le> start"
proof (induction s lim start rule: scanBack.induct)
  case (1 s lim start)
  then show ?case
    by (subst scanBack.simps) auto
qed

lemma DecodeLastRuneInString_width:
  assumes "s \<noteq> []"
  shows "1 \<le> snd (DecodeLastRuneInString s)"
proof -
  define n where "n = length s"
  define lim where "lim = (if int n - int UTFMax < 0 then 0 else int n - int UTFMax)"
  define start0 where "start0 = scanBack s lim (int n - 2)"
  define start where "start = (if start0 < 0 then 0 else nat start0)"
  have "start0 \<le> int n - 2"
    unfolding start0_def by (rule scanBack_le)
  moreover have "0 < n"
    using assms by (simp add: n_def)
  ultimately have "start < n"
    by (auto simp: start_def)
  then have "drop start s \<noteq> []"
    by (simp add: n_def)
  then have "1 \<le> snd (DecodeRuneInString (drop start s))"
    using DecodeRuneInString_width by blast
  then show ?thesis
    using assms
    by (auto simp: DecodeLastRuneInString_def Let_def n_def lim_def start0_def start_def
        split: prod.splits)
qed

lemma DecodeRuneInString_drop_shorter:
  "s \<noteq> [] \<Longrightarrow> (r, wid) = DecodeRuneInString s \<Longrightarrow> length s - wid < length s"
  using DecodeRuneInString_width [of s] by (cases "DecodeRuneInString s") auto

lemma DecodeLastRuneInString_take_shorter:
  "s \<noteq> [] \<Longrightarrow> (r, wid) = DecodeLastRuneInString s \<Longrightarrow> length s - wid < length s"
  using DecodeLastRuneInString_width [of s] by (cases "DecodeLastRuneInString s") auto

text \<open>
  \<open>strings.TrimSpace(s)\<close> is \<open>TrimFunc(s, unicode.IsSpace)\<close>: the white space runes at
  the front are skipped by decoding forwards (\<open>TrimLeftFunc\<close>), those at the back by
  decoding backwards (\<open>TrimRightFunc\<close>, which looks for the last rune that is not white
  space and cuts behind it; here the white space runes are cut off one at a time, which
  leaves the same prefix).
\<close>

function TrimLeft :: "string \<Rightarrow> string" where
  "TrimLeft s =
     (if s = [] then []
      else case DecodeRuneInString s of
             (r, wid) \<Rightarrow> if IsSpace r then TrimLeft (drop wid s) else s)"
  by pat_completeness auto
termination
  by (relation "measure length") (auto simp: DecodeRuneInString_drop_shorter)

function TrimRight :: "string \<Rightarrow> string" where
  "TrimRight s =
     (if s = [] then []
      else case DecodeLastRuneInString s of
             (r, wid) \<Rightarrow> if IsSpace r then TrimRight (take (length s - wid) s) else s)"
  by pat_completeness auto
termination
  by (relation "measure length") (auto simp: DecodeLastRuneInString_take_shorter)

declare TrimLeft.simps [simp del] TrimRight.simps [simp del]

definition TrimSpace :: "string \<Rightarrow> string" where
  "TrimSpace s = TrimRight (TrimLeft s)"

text \<open>
  \<open>strings.Index\<close> and \<open>strings.LastIndex\<close> for a separator of one byte (the program
  only searches for \<open>":"\<close>, \<open>"."\<close> and \<open>"/"\<close>): the position of the first and of
  the last occurrence, \<open>-1\<close> when there is none.
\<close>

fun Index :: "string \<Rightarrow> char \<Rightarrow> int" where
  "Index [] c = -1"
| "Index (x # xs) c =
     (if x = c then 0 else (let i = Index xs c in if i < 0 then -1 else i + 1))"

fun LastIndex :: "string \<Rightarrow> char \<Rightarrow> int" where
  "LastIndex [] c = -1"
| "LastIndex (x # xs) c =
     (let i = LastIndex xs c in if 0 \<le> i then i + 1 else if x = c then 0 else -1)"

text \<open>
  \<open>strings.SplitN(s, sep, 2)\<close> for a separator of one byte: the string itself when the
  separator does not occur, otherwise the text before and the text after its first
  occurrence.
\<close>

definition SplitN2 :: "string \<Rightarrow> char \<Rightarrow> string list" where
  "SplitN2 s sep =
     (let i = Index s sep in
      if i < 0 then [s] else [take (nat i) s, drop (nat i + 1) s])"

text \<open>
  \<open>strings.Map(mapping, s)\<close>: the runes of \<open>s\<close> are decoded as \<open>range s\<close> does. Up to
  the first rune that the mapping changes the bytes of \<open>s\<close> are copied as they are;
  from there on every mapped rune is encoded. (The runes given by the case mappings are
  never negative, so no rune is dropped. The program maps strings of one encoded rune
  only, \<open>string(r)\<close> in \<open>modifyFirstLetter\<close>.)
\<close>

function mapFrom :: "(nat \<Rightarrow> nat) \<Rightarrow> bool \<Rightarrow> string \<Rightarrow> string" where
  "mapFrom mapping changed s =
     (if s = [] then []
      else case DecodeRuneInString s of
             (c, wid) \<Rightarrow>
               let r = mapping c in
               if \<not> changed \<and> r = c then take wid s @ mapFrom mapping False (drop wid s)
               else EncodeRune r @ mapFrom mapping True (drop wid s))"
  by pat_completeness auto
termination
  by (relation "measure (\<lambda>(mapping, changed, s). length s)")
    (auto simp: DecodeRuneInString_drop_shorter)

declare mapFrom.simps [simp del]

definition strings_Map :: "(nat \<Rightarrow> nat) \<Rightarrow> string \<Rightarrow> string" where
  "strings_Map mapping s = mapFrom mapping False s"

text \<open>
  \<open>unicode.ToUpper\<close> and \<open>unicode.ToLower\<close>: the ASCII range is decided in the
  function itself; above it Go looks the rune up in its \<open>CaseRanges\<close> table with
  \<open>unicode.To(_case, r)\<close>. That table is data of the Go runtime and is a parameter
  \<open>uTo\<close> here: \<open>uTo UpperCase r\<close> is \<open>unicode.To(unicode.UpperCase, r)\<close>.
\<close>

type_synonym caseTable = "nat \<Rightarrow> nat \<Rightarrow> nat"

definition UpperCase :: nat where
  "UpperCase = 0"

definition LowerCase :: nat where
  "LowerCase = 1"

definition MaxASCII :: nat where
  "MaxASCII = 0x7F"

definition unicode_ToUpper :: "caseTable \<Rightarrow> nat \<Rightarrow> nat" where
  "unicode_ToUpper uTo r =
     (if r \<le> MaxASCII then (if 97 \<le> r \<and> r \<le> 122 then r - 32 else r)
      else uTo UpperCase r)"

definition unicode_ToLower :: "caseTable \<Rightarrow> nat \<Rightarrow> nat" where
  "unicode_ToLower uTo r =
     (if r \<le> MaxASCII then (if 65 \<le> r \<and> r \<le> 90 then r + 32 else r)
      else uTo LowerCase r)"

definition strings_ToUpper :: "caseTable \<Rightarrow> string \<Rightarrow> string" where
  "strings_ToUpper uTo s = strings_Map (unicode_ToUpper uTo) s"

definition strings_ToLower :: "caseTable \<Rightarrow> string \<Rightarrow> string" where
  "strings_ToLower uTo s = strings_Map (unicode_ToLower uTo) s"

section \<open>The field parser\<close>

text \<open>
  The errors of the program. \<open>ErrInvalidFormat\<close> and \<open>ErrUnsupportedFlagFormat\<close> are
  the two sentinels; the others are the \<open>errors.New\<close> and \<open>fmt.Errorf\<close> values, kept
  with the arguments of their format strings. \<open>GenError\<close> is an error of the
  \<open>gen\<close> package's validators, \<open>Panic\<close> a run-time panic (a slice bound out of range).
\<close>

datatype error =
    ErrInvalidFormat
  | ErrUnsupportedFlagFormat
  | NameIsRequired
  | TypeIsRequired
  | InvalidField string error
  | FieldIsDuplicated string
  | GenError string
  | Panic

text \<open>\<open>FieldKind\<close> is an \<open>int\<close> with three named values.\<close>

type_synonym FieldKind = int

definition FieldKindDefault :: FieldKind where
  "FieldKindDefault = 0"

definition FieldKindBuiltInOnly :: FieldKind where
  "FieldKindBuiltInOnly = 1"

definition FieldKindCustomType :: FieldKind where
  "FieldKindCustomType = 2"

record FieldFlag =
  Kind :: FieldKind
  Name :: string
  Type :: string

text \<open>The zero value \<open>FieldFlag{}\<close>.\<close>

definition FieldFlag_zero :: FieldFlag where
  "FieldFlag_zero = \<lparr>Kind = 0, Name = [], Type = []\<rparr>"

definition modifyFirstLetter :: "string \<Rightarrow> (string \<Rightarrow> string) \<Rightarrow> string" where
  "modifyFirstLetter s modify =
     (case DecodeRuneInString s of (r, wid) \<Rightarrow> modify (EncodeRune r) @ drop wid s)"

text \<open>\<open>Validate\<close> has a pointer receiver; \<open>None\<close> is the nil pointer.\<close>

definition Validate :: "FieldFlag option \<Rightarrow> error option" where
  "Validate fp =
     (case fp of
        None \<Rightarrow> Some ErrInvalidFormat
      | Some f \<Rightarrow>
          if Name f = [] then Some NameIsRequired
          else if Kind f = FieldKindDefault then None
          else if Type f = [] then Some TypeIsRequired
          else if Kind f = FieldKindBuiltInOnly \<or> Kind f = FieldKindCustomType then None
          else Some ErrUnsupportedFlagFormat)"

text \<open>
  \<open>NewField\<close> returns a descriptor and an error, both: \<open>return f, f.Validate()\<close>
  hands the descriptor back also when validation fails.
\<close>

definition NewField :: "caseTable \<Rightarrow> string \<Rightarrow> FieldFlag \<times> error option" where
  "NewField uTo value =
     (case SplitN2 value CHR '':'' of
        [p0] \<Rightarrow>
          (let p0 = TrimSpace p0;
               f = \<lparr>Kind = FieldKindDefault,
                    Name = modifyFirstLetter p0 (strings_ToUpper uTo),
                    Type = []\<rparr>
           in (f, Validate (Some f)))
      | [p0, p1] \<Rightarrow>
          (let p0 = TrimSpace p0;
               p1 = TrimSpace p1;
               dot = LastIndex p1 CHR ''.'';
               slash = LastIndex p1 CHR ''/''
           in
           if dot > slash then
             (let f = \<lparr>Kind = FieldKindCustomType,
                       Name = modifyFirstLetter p0 (strings_ToUpper uTo),
                       Type = TrimSpace p1\<rparr>
              in (f, Validate (Some f)))
           else if dot = -1 then
             (let f = \<lparr>Kind = FieldKindBuiltInOnly,
                       Name = modifyFirstLetter p0 (strings_ToUpper uTo),
                       Type = TrimSpace p1\<rparr>
              in (f, Validate (Some f)))
           else (FieldFlag_zero, Some ErrInvalidFormat))
      | _ \<Rightarrow> (FieldFlag_zero, Some ErrInvalidFormat))"

section \<open>The field resolver\<close>

text \<open>
  The \<open>gen\<close> package (\<open>internal/gen\<close>) is not among the sources. \<open>ParseFields\<close>
  shows the fields \<open>FieldName\<close>, \<open>KeyName\<close> and \<open>FieldType\<close> of \<open>gen.Field\<close> and
  the three fields of \<open>gen.Package\<close>; the field \<open>packageAlias\<close> is the optional one the
  spec gives a generation field.
\<close>

record GenField =
  FieldName :: string
  KeyName :: string
  FieldType :: string
  packageAlias :: "string option"

record GenPackage =
  PackageName :: string
  ImportPackages :: "string list"
  Version :: string

text \<open>
  Modelled from the spec: the method \<open>SetPackage\<close> of \<open>gen.Field\<close> is missing. The
  spec's \<open>packageAlias\<close> is "set only for \<open>CustomType\<close>, identifying which import
  supplies the type"; \<open>SetPackage\<close> stores the import path there and leaves the other
  fields alone.
\<close>

definition SetPackage :: "string \<Rightarrow> GenField \<Rightarrow> GenField" where
  "SetPackage pkgName field = field\<lparr>packageAlias := Some pkgName\<rparr>"

text \<open>
  What \<open>ParseFields\<close> takes from outside its own source: the case table of the Go
  runtime, the two validators of the \<open>gen\<close> package (\<open>gen.Field.Validate\<close> and
  \<open>gen.Package.Validate\<close>, which return an error or nil), and the order in which
  \<open>for imp := range seenPkgs\<close> visits the keys of the map, which Go leaves unspecified
  and varies from one run to the next.
\<close>

record deps =
  unicodeTo :: caseTable
  fieldValidate :: "GenField \<Rightarrow> error option"
  packageValidate :: "GenPackage \<Rightarrow> error option"
  mapRange :: "string set \<Rightarrow> string list"

text \<open>
  The \<open>switch f.Kind\<close> of the loop body: the field with its type filled in and the
  import set, or the error returned. \<open>f.Type[:dot]\<close> panics when there is no dot.
\<close>

definition switchKind ::
  "FieldFlag \<Rightarrow> GenField \<Rightarrow> string set \<Rightarrow> error + (GenField \<times> string set)" where
  "switchKind f field seenPkgs =
     (if Kind f = FieldKindDefault then Inr (field\<lparr>FieldType := ''interface{}''\<rparr>, seenPkgs)
      else if Kind f = FieldKindBuiltInOnly then Inr (field\<lparr>FieldType := Type f\<rparr>, seenPkgs)
      else if Kind f = FieldKindCustomType then
        (let dot = LastIndex (Type f) CHR ''.'' in
         if dot < 0 then Inl Panic
         else
           let pkgName = take (nat dot) (Type f);
               seenPkgs' = insert pkgName seenPkgs;
               slash = LastIndex pkgName CHR ''/'';
               field' = SetPackage pkgName field
           in Inr (field'\<lparr>FieldType := drop (nat (slash + 1)) (Type f)\<rparr>, seenPkgs'))
      else Inl ErrUnsupportedFlagFormat)"

text \<open>
  The loop \<open>for _, f := range fs\<close>, over the state \<open>(genFields, seenFields, seenPkgs)\<close>;
  the two maps to \<open>struct{}\<close> are sets. \<open>newGenField\<close> is the literal
  \<open>gen.Field{FieldName: f.Name, KeyName: ...}\<close> the body starts with.
\<close>

definition newGenField :: "deps \<Rightarrow> FieldFlag \<Rightarrow> GenField" where
  "newGenField D f =
     \<lparr>FieldName = Name f,
      KeyName = modifyFirstLetter (Name f) (strings_ToLower (unicodeTo D)) @ ''Key'',
      FieldType = [],
      packageAlias = None\<rparr>"

fun fieldsLoop ::
  "deps \<Rightarrow> FieldFlag list \<Rightarrow> GenField list \<times> string set \<times> string set \<Rightarrow>
   error + (GenField list \<times> string set \<times> string set)" where
  "fieldsLoop D [] st = Inr st"
| "fieldsLoop D (f # fs) (genFields, seenFields, seenPkgs) =
     (let field = newGenField D f
      in case switchKind f field seenPkgs of
           Inl e \<Rightarrow> Inl e
         | Inr (field', seenPkgs') \<Rightarrow>
             (case fieldValidate D field' of
                Some err \<Rightarrow> Inl (InvalidField (Name f) err)
              | None \<Rightarrow>
                  if FieldName field' \<in> seenFields
                  then Inl (FieldIsDuplicated (FieldName field'))
                  else fieldsLoop D fs
                         (genFields @ [field'], insert (FieldName field') seenFields, seenPkgs')))"

text \<open>
  \<open>sort.Sort(sort.StringSlice(toImport))\<close> orders the strings by \<open>x < y\<close>, the
  bytewise lexicographic order of Go strings; on a list without duplicates every
  sorting procedure gives the same list, \<open>sort\<close>.
\<close>

definition ParseFields ::
  "deps \<Rightarrow> string \<Rightarrow> string \<Rightarrow> FieldFlag list \<Rightarrow> error + (GenPackage \<times> GenField list)" where
  "ParseFields D pkg version fs =
     (case fieldsLoop D fs ([], {}, {''context''}) of
        Inl e \<Rightarrow> Inl e
      | Inr (genFields, seenFields, seenPkgs) \<Rightarrow>
          (let toImport = sort (mapRange D seenPkgs);
               genPkg = \<lparr>PackageName = pkg, ImportPackages = toImport, Version = version\<rparr>
           in case packageValidate D genPkg of
                Some err \<Rightarrow> Inl err
              | None \<Rightarrow> Inr (genPkg, genFields)))"

text \<open>\<open>FieldFlags.Set\<close>: the flag value is parsed and appended, or the error returned.\<close>

definition FieldFlags_Set :: "caseTable \<Rightarrow> FieldFlag list \<Rightarrow> string \<Rightarrow> error + FieldFlag list" where
  "FieldFlags_Set uTo a value =
     (case NewField uTo value of
        (f, Some err) \<Rightarrow> Inl err
      | (f, None) \<Rightarrow> Inr (a @ [f]))"

section \<open>The code emitter\<close>

text \<open>
  \<open>gen.Generate\<close> and its template are not among the sources. The spec's section 4.3
  gives the structure (header comment with the tool version, package clause, import
  block with the sorted paths, and per field a key type, a getter and a setter) and the
  rule for the getter. The text of each part is that of the files \<open>TestRun\<close> expects
  (\<open>cmd/valctx\<close>); the placeholder, "any" in the spec, is \<open>interface{}\<close> there and in
  \<open>ParseFields\<close>.
\<close>

text \<open>
  Modelled from the spec: the head of the generated file; missing with the template. "A
  provenance header comment embedding \<open>toolVersion\<close> and a "do not edit" notice, a package
  declaration using \<open>packageName\<close>, an import block listing every path in
  \<open>importPaths\<close>".
\<close>

definition emitHeader :: "GenPackage \<Rightarrow> string" where
  \<open>emitHeader p =
     ''// Code generated by valctx '' @ Version p @ ''. DO NOT EDIT.\<newline>\<newline>''
     @ ''package '' @ PackageName p @ ''\<newline>\<newline>''
     @ ''import (\<newline>''
     @ concat (map (\<lambda>imp. ''    "'' @ imp @ ''"\<newline>'') (ImportPackages p))
     @ '')\<newline>''\<close>

text \<open>
  Modelled from the spec: the key type of a field, "an empty marker type named
  \<open>keyName\<close>"; missing with the template.
\<close>

definition emitKeyType :: "GenField \<Rightarrow> string" where
  "emitKeyType f = ''\<newline>type '' @ KeyName f @ '' struct{}\<newline>\<newline>''"

text \<open>
  Modelled from the spec: the getter of a field; missing with the template. "For
  \<open>fieldType == "any"\<close> it returns the stored value directly (no presence flag) [...];
  for any concrete \<open>fieldType\<close> it returns a \<open>(value, present-boolean)\<close> pair".
\<close>

definition emitGetter :: "GenField \<Rightarrow> string" where
  "emitGetter f =
     ''// Get '' @ FieldName f @ '' retrieves the '' @ FieldName f
       @ '' from the context.\<newline>''
     @ ''func Get'' @ FieldName f @ ''(ctx context.Context) ''
     @ (if FieldType f = ''interface{}''
        then ''interface{} {\<newline>''
             @ ''    v := ctx.Value('' @ KeyName f @ ''{})\<newline>''
             @ ''    return v\<newline>''
        else ''('' @ FieldType f @ '', bool) {\<newline>''
             @ ''    v, ok := ctx.Value('' @ KeyName f @ ''{}).('' @ FieldType f @ '')\<newline>''
             @ ''    return v, ok\<newline>'')
     @ ''}\<newline>\<newline>''"

text \<open>
  Modelled from the spec: the setter of a field, which "takes the typed value and returns
  a new context carrying it under that field's private key"; missing with the template.
\<close>

definition emitSetter :: "GenField \<Rightarrow> string" where
  "emitSetter f =
     ''// Set'' @ FieldName f @ '' sets the '' @ FieldName f @ '' in the context.\<newline>''
     @ ''func Set'' @ FieldName f @ ''(ctx context.Context, v '' @ FieldType f
       @ '') context.Context {\<newline>''
     @ ''    return context.WithValue(ctx, '' @ KeyName f @ ''{}, v)\<newline>''
     @ ''}\<newline>''"

text \<open>
  Modelled from the spec: \<open>gen.Generate\<close>, as the text it writes: the header, and "for
  each field in \<open>fields\<close>, in order, three declarations".
\<close>

definition Generate :: "GenPackage \<Rightarrow> GenField list \<Rightarrow> string" where
  "Generate p fs =
     emitHeader p @ concat (map (\<lambda>f. emitKeyType f @ emitGetter f @ emitSetter f) fs)"

text \<open>
  What the root command of \<open>run\<close> composes, from the \<open>-field\<close> values to the text of
  the generated file: every value goes through \<open>FieldFlags.Set\<close>, the descriptors
  through \<open>ParseFields\<close>, the result through \<open>gen.Generate\<close>. (The command's checks
  that \<open>-output\<close> and \<open>-package\<close> are given and that there is a field, and the writing
  of the file, are left out.)
\<close>

fun setAll :: "caseTable \<Rightarrow> FieldFlag list \<Rightarrow> string list \<Rightarrow> error + FieldFlag list" where
  "setAll uTo a [] = Inr a"
| "setAll uTo a (v # vs) =
     (case FieldFlags_Set uTo a v of Inl e \<Rightarrow> Inl e | Inr a' \<Rightarrow> setAll uTo a' vs)"

definition generateFile :: "deps \<Rightarrow> string \<Rightarrow> string \<Rightarrow> string list \<Rightarrow> error + string" where
  "generateFile D pkg version values =
     (case setAll (unicodeTo D) [] values of
        Inl e \<Rightarrow> Inl e
      | Inr flags \<Rightarrow>
          (case ParseFields D pkg version flags of
             Inl e \<Rightarrow> Inl e
           | Inr (genPkg, genFields) \<Rightarrow> Inr (Generate genPkg genFields)))"

section \<open>Case tables for the examples\<close>

text \<open>
  Two instances of the case table, for evaluating the program on concrete inputs: one
  without any letter above ASCII, and one with the pair U+00E9 / U+00C9 of Go's table
  (\<open>unicode.ToUpper(0xE9) = 0xC9\<close>).
\<close>

definition asciiCaseTable :: caseTable where
  "asciiCaseTable c r = r"

definition exampleCaseTable :: caseTable where
  "exampleCaseTable c r =
     (if c = UpperCase \<and> r = 0xE9 then 0xC9
      else if c = LowerCase \<and> r = 0xC9 then 0xE9
      else r)"

text \<open>
  An environment for the examples: validators that accept every field and every package,
  and a map that is ranged over in ascending order of its keys. \<open>exampleDepsRev\<close> differs
  in the order of the range only, which is descending.
\<close>

definition exampleDeps :: deps where
  "exampleDeps =
     \<lparr>unicodeTo = exampleCaseTable,
      fieldValidate = (\<lambda>field. None),
      packageValidate = (\<lambda>genPkg. None),
      mapRange = sorted_list_of_set\<rparr>"

definition exampleDepsRev :: deps where
  "exampleDepsRev = exampleDeps\<lparr>mapRange := (\<lambda>S. rev (sorted_list_of_set S))\<rparr>"

text \<open>
  The fields of the README's example, and one more of the same package; the package and
  the generation fields that \<open>ParseFields\<close> makes of them.
\<close>

definition exampleFlags :: "FieldFlag list" where
  "exampleFlags =
     map (\<lambda>value. fst (NewField exampleCaseTable value))
       [''UserID'', ''TraceIDs:[]string'', ''ClientUUID:github.com/google/uuid.UUID'',
        ''SessionUUID:github.com/google/uuid.NullUUID'']"

definition examplePackage :: GenPackage where
  "examplePackage =
     \<lparr>PackageName = ''gen'', ImportPackages = [''context'', ''github.com/google/uuid''],
      Version = ''v0.0.1''\<rparr>"

definition exampleGenFields :: "GenField list" where
  "exampleGenFields =
     [\<lparr>FieldName = ''UserID'', KeyName = ''userIDKey'', FieldType = ''interface{}'',
        packageAlias = None\<rparr>,
      \<lparr>FieldName = ''TraceIDs'', KeyName = ''traceIDsKey'', FieldType = ''[]string'',
        packageAlias = None\<rparr>,
      \<lparr>FieldName = ''ClientUUID'', KeyName = ''clientUUIDKey'', FieldType = ''uuid.UUID'',
        packageAlias = Some ''github.com/google/uuid''\<rparr>,
      \<lparr>FieldName = ''SessionUUID'', KeyName = ''sessionUUIDKey'',
        FieldType = ''uuid.NullUUID'', packageAlias = Some ''github.com/google/uuid''\<rparr>]"

section \<open>Notions for stating the properties of the resolver\<close>

text \<open>
  What Go guarantees of \<open>range\<close> over a map: every key is visited, and visited once; the
  order is left open.
\<close>

definition rangeVisitsKeysOnce :: "(string set \<Rightarrow> string list) \<Rightarrow> bool" where
  "rangeVisitsKeysOnce rng = (\<forall>S. finite S \<longrightarrow> set (rng S) = S \<and> distinct (rng S))"

text \<open>
  The generation field that the loop body builds for a descriptor, and whether the
  descriptor gets through the kind switch and the field validation of the body.
\<close>

definition resolvedField :: "deps \<Rightarrow> FieldFlag \<Rightarrow> GenField" where
  "resolvedField D f =
     (case switchKind f (newGenField D f) {} of
        Inr (field, seenPkgs) \<Rightarrow> field
      | Inl e \<Rightarrow> newGenField D f)"

definition passesChecks :: "deps \<Rightarrow> FieldFlag \<Rightarrow> bool" where
  "passesChecks D f =
     (case switchKind f (newGenField D f) {} of
        Inr (field, seenPkgs) \<Rightarrow> fieldValidate D field = None
      | Inl e \<Rightarrow> False)"

section \<open>Properties of the string functions\<close>

subsection \<open>Trimming twice is trimming once\<close>

lemma IsSpace_RuneError [simp]: "\<not> IsSpace RuneError"
  by (simp add: IsSpace_def RuneError_def)

lemma list_shape4:
  obtains "r = []" | c0 where "r = [c0]" | c0 c1 where "r = [c0, c1]"
    | c0 c1 c2 where "r = [c0, c1, c2]"
    | c0 c1 c2 c3 r' where "r = c0 # c1 # c2 # c3 # r'"
  by (metis neq_Nil_conv)

lemma DecodeRuneInString_append:
  assumes "fst (DecodeRuneInString r) \<noteq> RuneError"
  shows "DecodeRuneInString (r @ x) = DecodeRuneInString r"
proof (cases r rule: list_shape4)
  case 1
  then show ?thesis using assms by simp
next
  case (2 c0)
  have "DecodeRuneInString ([c0] @ x) = DecodeRuneInString [c0]
      \<or> fst (DecodeRuneInString [c0]) = RuneError"
    by (simp add: Let_def)
  then show ?thesis using assms 2 by blast
next
  case (3 c0 c1)
  have "DecodeRuneInString ([c0, c1] @ x) = DecodeRuneInString [c0, c1]
      \<or> fst (DecodeRuneInString [c0, c1]) = RuneError"
    by (simp add: Let_def)
  then show ?thesis using assms 3 by blast
next
  case (4 c0 c1 c2)
  have "DecodeRuneInString ([c0, c1, c2] @ x) = DecodeRuneInString [c0, c1, c2]
      \<or> fst (DecodeRuneInString [c0, c1, c2]) = RuneError"
    by (simp add: Let_def)
  then show ?thesis using assms 4 by blast
next
  case (5 c0 c1 c2 c3 r')
  then show ?thesis by (simp add: Let_def)
qed

lemma TrimLeft_result:
  "TrimLeft s = [] \<or> \<not> IsSpace (fst (DecodeRuneInString (TrimLeft s)))"
proof (induction s rule: TrimLeft.induct)
  case (1 s)
  show ?case
  proof (cases "s = []")
    case True
    then show ?thesis by (simp add: TrimLeft.simps)
  next
    case False
    obtain r wid where d: "DecodeRuneInString s = (r, wid)"
      by (cases "DecodeRuneInString s")
    show ?thesis
    proof (cases "IsSpace r")
      case True
      then have "TrimLeft s = TrimLeft (drop wid s)"
        using False d by (subst TrimLeft.simps) simp
      then show ?thesis
        using "1.IH" [OF False d [symmetric] True] by simp
    next
      case no: False
      then have "TrimLeft s = s"
        using False d by (subst TrimLeft.simps) simp
      then show ?thesis
        using no d by simp
    qed
  qed
qed

lemma TrimLeft_fixed:
  "t = [] \<or> \<not> IsSpace (fst (DecodeRuneInString t)) \<Longrightarrow> TrimLeft t = t"
  by (subst TrimLeft.simps) (auto split: prod.splits)

lemma TrimRight_result:
  "TrimRight s = [] \<or> \<not> IsSpace (fst (DecodeLastRuneInString (TrimRight s)))"
proof (induction s rule: TrimRight.induct)
  case (1 s)
  show ?case
  proof (cases "s = []")
    case True
    then show ?thesis by (simp add: TrimRight.simps)
  next
    case False
    obtain r wid where d: "DecodeLastRuneInString s = (r, wid)"
      by (cases "DecodeLastRuneInString s")
    show ?thesis
    proof (cases "IsSpace r")
      case True
      then have "TrimRight s = TrimRight (take (length s - wid) s)"
        using False d by (subst TrimRight.simps) simp
      then show ?thesis
        using "1.IH" [OF False d [symmetric] True] by simp
    next
      case no: False
      then have "TrimRight s = s"
        using False d by (subst TrimRight.simps) simp
      then show ?thesis
        using no d by simp
    qed
  qed
qed

lemma TrimRight_fixed:
  "t = [] \<or> \<not> IsSpace (fst (DecodeLastRuneInString t)) \<Longrightarrow> TrimRight t = t"
  by (subst TrimRight.simps) (auto split: prod.splits)

lemma TrimRight_prefix: "\<exists>x. s = TrimRight s @ x"
proof (induction s rule: TrimRight.induct)
  case (1 s)
  show ?case
  proof (cases "s = []")
    case True
    then show ?thesis by (simp add: TrimRight.simps)
  next
    case False
    obtain r wid where d: "DecodeLastRuneInString s = (r, wid)"
      by (cases "DecodeLastRuneInString s")
    show ?thesis
    proof (cases "IsSpace r")
      case True
      then have eq: "TrimRight s = TrimRight (take (length s - wid) s)"
        using False d by (subst TrimRight.simps) simp
      obtain x where "take (length s - wid) s = TrimRight (take (length s - wid) s) @ x"
        using "1.IH" [OF False d [symmetric] True] by blast
      then have "s = TrimRight s @ (x @ drop (length s - wid) s)"
        using eq by (metis append.assoc append_take_drop_id)
      then show ?thesis by blast
    next
      case no: False
      then have "TrimRight s = s"
        using False d by (subst TrimRight.simps) simp
      then show ?thesis by simp
    qed
  qed
qed

lemma TrimSpace_idem: "TrimSpace (TrimSpace s) = TrimSpace s"
proof -
  define t where "t = TrimLeft s"
  define r where "r = TrimRight t"
  obtain x where tx: "t = r @ x"
    using TrimRight_prefix [of t] by (auto simp: r_def)
  have "r = [] \<or> \<not> IsSpace (fst (DecodeRuneInString r))"
  proof (rule ccontr)
    assume a: "\<not> (r = [] \<or> \<not> IsSpace (fst (DecodeRuneInString r)))"
    then have sp: "IsSpace (fst (DecodeRuneInString r))" and ne: "r \<noteq> []"
      by auto
    from sp have "fst (DecodeRuneInString r) \<noteq> RuneError"
      using IsSpace_RuneError by metis
    then have "DecodeRuneInString t = DecodeRuneInString r"
      unfolding tx by (rule DecodeRuneInString_append)
    moreover have "t \<noteq> []"
      using ne tx by simp
    ultimately show False
      using TrimLeft_result [of s] sp by (simp add: t_def)
  qed
  then have "TrimLeft r = r"
    by (rule TrimLeft_fixed)
  moreover have "TrimRight r = r"
    using TrimRight_result [of t] by (intro TrimRight_fixed) (simp add: r_def)
  ultimately show ?thesis
    by (simp add: TrimSpace_def t_def r_def)
qed

subsection \<open>Decoding an encoded rune\<close>

lemma Decode2:
  "byte c0 = s0 \<Longrightarrow> byte c1 = s1 \<Longrightarrow> 0xC2 \<le> s0 \<Longrightarrow> s0 < 0xE0 \<Longrightarrow> 0x80 \<le> s1 \<Longrightarrow> s1 \<le> 0xBF \<Longrightarrow>
   DecodeRuneInString (c0 # c1 # rest) = (rune2 s0 s1, 2)"
  by (simp add: Let_def RuneSelf_def)

lemma Decode3:
  "byte c0 = s0 \<Longrightarrow> byte c1 = s1 \<Longrightarrow> byte c2 = s2 \<Longrightarrow> 0xE0 \<le> s0 \<Longrightarrow> s0 < 0xF0 \<Longrightarrow>
   (if s0 = 0xE0 then 0xA0 else 0x80) \<le> s1 \<Longrightarrow> s1 \<le> (if s0 = 0xED then 0x9F else 0xBF) \<Longrightarrow>
   0x80 \<le> s2 \<Longrightarrow> s2 \<le> 0xBF \<Longrightarrow>
   DecodeRuneInString (c0 # c1 # c2 # rest) = (rune3 s0 s1 s2, 3)"
  by (simp add: Let_def RuneSelf_def split: if_splits)

lemma Decode4:
  "byte c0 = s0 \<Longrightarrow> byte c1 = s1 \<Longrightarrow> byte c2 = s2 \<Longrightarrow> byte c3 = s3 \<Longrightarrow> 0xF0 \<le> s0 \<Longrightarrow> s0 \<le> 0xF4 \<Longrightarrow>
   (if s0 = 0xF0 then 0x90 else 0x80) \<le> s1 \<Longrightarrow> s1 \<le> (if s0 = 0xF4 then 0x8F else 0xBF) \<Longrightarrow>
   0x80 \<le> s2 \<Longrightarrow> s2 \<le> 0xBF \<Longrightarrow> 0x80 \<le> s3 \<Longrightarrow> s3 \<le> 0xBF \<Longrightarrow>
   DecodeRuneInString (c0 # c1 # c2 # c3 # rest) = (rune4 s0 s1 s2 s3, 4)"
  by (simp add: Let_def RuneSelf_def split: if_splits)

lemma byte_char_of: "n < 256 \<Longrightarrow> byte (char_of n) = n"
  by simp

lemma cont_mod: "b < 64 \<Longrightarrow> (128 + b) mod 64 = (b::nat)"
  using mod_mult_self4 [of 64 2 b] by simp

lemma lead_mod:
  "a < 32 \<Longrightarrow> (192 + a) mod 32 = (a::nat)"
  "a < 16 \<Longrightarrow> (224 + a) mod 16 = a"
  "a < 8 \<Longrightarrow> (240 + a) mod 8 = a"
  using mod_mult_self4 [of 32 6 a] mod_mult_self4 [of 16 14 a] mod_mult_self4 [of 8 30 a]
  by simp_all

lemma split64: "\<exists>q c. r = q * 64 + c \<and> c < 64 \<and> q = r div 64 \<and> c = r mod (64::nat)"
  by simp

lemma rt1:
  assumes "r \<le> 0x7F"
  shows "DecodeRuneInString (EncodeRune r @ rest) = (r, length (EncodeRune r))"
  using assms by (simp add: EncodeRune_def Let_def RuneSelf_def)

lemma rt2:
  assumes "0x7F < r" "r \<le> 0x7FF"
  shows "DecodeRuneInString (EncodeRune r @ rest) = (r, length (EncodeRune r))"
proof -
  obtain a b where r: "r = a * 64 + b" and b: "b < 64" and ab: "a = r div 64" "b = r mod 64"
    using split64 by blast
  have a: "2 \<le> a" "a < 32"
    using assms r b by linarith+
  have e: "EncodeRune r = [char_of (0xC0 + a), char_of (0x80 + b)]"
    using assms by (simp add: EncodeRune_def ab)
  have "rune2 (0xC0 + a) (0x80 + b) = r"
    using a b by (simp add: rune2_def r lead_mod cont_mod)
  moreover have "DecodeRuneInString (char_of (0xC0 + a) # char_of (0x80 + b) # rest)
      = (rune2 (0xC0 + a) (0x80 + b), 2)"
    using a b by (intro Decode2 byte_char_of) simp_all
  ultimately show ?thesis
    by (simp add: e)
qed

lemma rt3:
  assumes "0x7FF < r" "r \<le> 0xFFFF" "\<not> (0xD800 \<le> r \<and> r \<le> 0xDFFF)"
  shows "DecodeRuneInString (EncodeRune r @ rest) = (r, length (EncodeRune r))"
proof -
  obtain q c where r: "r = q * 64 + c" and c: "c < 64" and qc: "q = r div 64" "c = r mod 64"
    using split64 by blast
  obtain a b where q: "q = a * 64 + b" and b: "b < 64" and ab: "a = q div 64" "b = q mod 64"
    using split64 by blast
  have a4096: "r div 4096 = a"
    using div_mult2_eq [of r 64 64] by (simp add: ab qc)
  have a: "a < 16" "a = 0 \<longrightarrow> 32 \<le> b" "a = 13 \<longrightarrow> b < 32"
    using assms r c q b by linarith+
  have digits: "r div 4096 = a" "(r div 64) mod 64 = b" "r mod 64 = c"
    using a4096 ab qc by simp_all
  have range: "\<not> r \<le> 0x7F" "\<not> r \<le> 0x7FF" "r \<le> 0xFFFF"
    "\<not> (0x10FFFF < r \<or> (0xD800 \<le> r \<and> r \<le> 0xDFFF))"
    using assms by auto
  have e: "EncodeRune r = [char_of (0xE0 + a), char_of (0x80 + b), char_of (0x80 + c)]"
    by (simp only: EncodeRune_def range digits if_False if_True)
  have "rune3 (0xE0 + a) (0x80 + b) (0x80 + c) = r"
    using a b c by (simp add: rune3_def r q lead_mod cont_mod)
  moreover have "DecodeRuneInString
      (char_of (0xE0 + a) # char_of (0x80 + b) # char_of (0x80 + c) # rest)
      = (rune3 (0xE0 + a) (0x80 + b) (0x80 + c), 3)"
    using a b c by (intro Decode3 byte_char_of) auto
  ultimately show ?thesis
    by (simp add: e)
qed

lemma rt4:
  assumes "0xFFFF < r" "r \<le> 0x10FFFF"
  shows "DecodeRuneInString (EncodeRune r @ rest) = (r, length (EncodeRune r))"
proof -
  obtain q d where r: "r = q * 64 + d" and d: "d < 64" and qd: "q = r div 64" "d = r mod 64"
    using split64 by blast
  obtain p c where q: "q = p * 64 + c" and c: "c < 64" and pc: "p = q div 64" "c = q mod 64"
    using split64 by blast
  obtain a b where p: "p = a * 64 + b" and b: "b < 64" and ab: "a = p div 64" "b = p mod 64"
    using split64 by blast
  have p4096: "r div 4096 = p"
    using div_mult2_eq [of r 64 64] by (simp add: pc qd)
  have a262144: "r div 262144 = a"
    using div_mult2_eq [of r 4096 64] by (simp add: p4096 ab)
  have a: "a \<le> 4" "a = 0 \<longrightarrow> 16 \<le> b" "a = 4 \<longrightarrow> b < 16"
    using assms r d q c p b by linarith+
  have digits: "r div 262144 = a" "(r div 4096) mod 64 = b" "(r div 64) mod 64 = c"
    "r mod 64 = d"
    using a262144 p4096 ab pc qd by simp_all
  have range: "\<not> r \<le> 0x7F" "\<not> r \<le> 0x7FF" "\<not> r \<le> 0xFFFF"
    "\<not> (0x10FFFF < r \<or> (0xD800 \<le> r \<and> r \<le> 0xDFFF))"
    using assms by auto
  have e: "EncodeRune r = [char_of (0xF0 + a), char_of (0x80 + b), char_of (0x80 + c),
      char_of (0x80 + d)]"
    by (simp only: EncodeRune_def range digits if_False if_True)
  have "rune4 (0xF0 + a) (0x80 + b) (0x80 + c) (0x80 + d) = r"
    using a b c d by (simp add: rune4_def r q p lead_mod cont_mod)
  moreover have "DecodeRuneInString
      (char_of (0xF0 + a) # char_of (0x80 + b) # char_of (0x80 + c) # char_of (0x80 + d) # rest)
      = (rune4 (0xF0 + a) (0x80 + b) (0x80 + c) (0x80 + d), 4)"
    using a b c d by (intro Decode4 byte_char_of) auto
  ultimately show ?thesis
    by (simp add: e)
qed

lemma Decode_Encode:
  assumes "ValidRune r"
  shows "DecodeRuneInString (EncodeRune r @ rest) = (r, length (EncodeRune r))"
proof -
  consider "r \<le> 0x7F" | "0x7F < r" "r \<le> 0x7FF"
    | "0x7FF < r" "r \<le> 0xFFFF" "\<not> (0xD800 \<le> r \<and> r \<le> 0xDFFF)"
    | "0xFFFF < r" "r \<le> 0x10FFFF"
    using assms unfolding ValidRune_def by linarith
  then show ?thesis
    by cases (rule rt1 rt2 rt3 rt4; assumption)+
qed

subsection \<open>Searching and splitting\<close>

lemma Index_ge: "-1 \<le> Index s c"
  by (induction s) (auto simp: Let_def)

lemma Index_neg_iff: "Index s c < 0 \<longleftrightarrow> c \<notin> set s"
proof (induction s)
  case Nil
  then show ?case by simp
next
  case (Cons x xs)
  then show ?case
    using Index_ge [of xs c] by (auto simp: Let_def)
qed

lemma Index_first:
  "c \<in> set s \<Longrightarrow>
   nat (Index s c) < length s \<and> s ! nat (Index s c) = c \<and> c \<notin> set (take (nat (Index s c)) s)"
proof (induction s)
  case Nil
  then show ?case by simp
next
  case (Cons x xs)
  show ?case
  proof (cases "x = c")
    case True
    then show ?thesis by simp
  next
    case False
    then have in_xs: "c \<in> set xs" using Cons.prems by simp
    then have nn: "0 \<le> Index xs c" using Index_neg_iff [of xs c] by simp
    have "nat (Index xs c + 1) = Suc (nat (Index xs c))" using nn by simp
    then show ?thesis
      using False nn Cons.IH [OF in_xs] by (simp add: Let_def)
  qed
qed

lemma LastIndex_ge: "-1 \<le> LastIndex s c"
  by (induction s) (auto simp: Let_def)

lemma LastIndex_less: "LastIndex s c < int (length s)"
  by (induction s) (auto simp: Let_def)

lemma LastIndex_neg_iff: "LastIndex s c < 0 \<longleftrightarrow> c \<notin> set s"
  by (induction s) (auto simp: Let_def)

lemma LastIndex_minus_one_iff: "LastIndex s c = -1 \<longleftrightarrow> c \<notin> set s"
  using LastIndex_ge [of s c] LastIndex_neg_iff [of s c] by linarith

lemma LastIndex_last:
  "c \<in> set s \<Longrightarrow>
   nat (LastIndex s c) < length s \<and> s ! nat (LastIndex s c) = c
   \<and> c \<notin> set (drop (Suc (nat (LastIndex s c))) s)"
proof (induction s)
  case Nil
  then show ?case by simp
next
  case (Cons x xs)
  show ?case
  proof (cases "c \<in> set xs")
    case True
    then have nn: "0 \<le> LastIndex xs c" using LastIndex_neg_iff [of xs c] by simp
    have "nat (LastIndex xs c + 1) = Suc (nat (LastIndex xs c))" using nn by simp
    then show ?thesis
      using nn Cons.IH [OF True] by (simp add: Let_def)
  next
    case False
    then have "LastIndex xs c < 0" using LastIndex_neg_iff [of xs c] by simp
    moreover have "x = c" using False Cons.prems by simp
    ultimately show ?thesis using False by (simp add: Let_def)
  qed
qed

lemma SplitN2_none: "c \<notin> set s \<Longrightarrow> SplitN2 s c = [s]"
  by (simp add: SplitN2_def Index_neg_iff)

lemma SplitN2_some:
  "c \<in> set s \<Longrightarrow> SplitN2 s c = [take (nat (Index s c)) s, drop (nat (Index s c) + 1) s]"
  using Index_neg_iff [of s c] by (simp add: SplitN2_def Let_def)

lemma drop_split_at:
  assumes "k \<le> n" and "n < length xs"
  shows "drop k xs = drop k (take n xs) @ xs ! n # drop (Suc n) xs"
proof -
  have 1: "drop k (take n xs @ drop n xs)
      = drop k (take n xs) @ drop (k - length (take n xs)) (drop n xs)"
    by (rule drop_append)
  have 2: "k - length (take n xs) = 0"
    using assms by simp
  have 3: "take n xs @ drop n xs = xs"
    by simp
  have 4: "drop n xs = xs ! n # drop (Suc n) xs"
    using assms by (simp add: Cons_nth_drop_Suc)
  show ?thesis
    using 1 unfolding 2 3 by (simp add: 4)
qed

subsection \<open>Mapping the first rune\<close>

lemma EncodeRune_nonempty: "EncodeRune r \<noteq> []"
  by (simp add: EncodeRune_def)

lemma mapFrom_nonempty: "s \<noteq> [] \<Longrightarrow> mapFrom m ch s \<noteq> []"
  using DecodeRuneInString_width [of s]
  by (subst mapFrom.simps) (auto simp: Let_def EncodeRune_nonempty split: prod.splits)

lemma modifyFirstLetter_ToUpper_nonempty: "modifyFirstLetter s (strings_ToUpper uTo) \<noteq> []"
  by (simp add: modifyFirstLetter_def strings_ToUpper_def strings_Map_def mapFrom_nonempty
      EncodeRune_nonempty split: prod.splits)

lemma strings_Map_EncodeRune:
  assumes "ValidRune r"
  shows "strings_Map m (EncodeRune r) = EncodeRune (m r)"
proof -
  have d: "DecodeRuneInString (EncodeRune r) = (r, length (EncodeRune r))"
    using Decode_Encode [OF assms, of "[]"] by simp
  show ?thesis
    unfolding strings_Map_def
    by (subst mapFrom.simps) (simp add: d EncodeRune_nonempty Let_def mapFrom.simps)
qed

lemma modifyFirstLetter_valid:
  assumes "ValidRune r"
  shows "modifyFirstLetter (EncodeRune r @ rest) (strings_ToUpper uTo)
           = EncodeRune (unicode_ToUpper uTo r) @ rest"
  by (simp add: modifyFirstLetter_def Decode_Encode [OF assms] strings_ToUpper_def
      strings_Map_EncodeRune [OF assms])

lemma EncodeRune_RuneError: "EncodeRune RuneError = [CHR 0xEF, CHR 0xBF, CHR 0xBD]"
proof -
  have "char_of (239::nat) = CHR 0xEF" "char_of (191::nat) = CHR 0xBF"
    "char_of (189::nat) = CHR 0xBD"
    by code_simp+
  then show ?thesis
    by (simp add: EncodeRune_def RuneError_def)
qed

lemma ValidRune_RuneError: "ValidRune RuneError"
  by (simp add: ValidRune_def RuneError_def)

subsection \<open>Every decoded rune is valid\<close>

lemma cont_mod_sub: "128 \<le> s \<Longrightarrow> s \<le> 191 \<Longrightarrow> s mod 64 = s - (128::nat)"
  using cont_mod [of "s - 128"] by simp

lemma lead_mod_sub:
  "192 \<le> s \<Longrightarrow> s < 224 \<Longrightarrow> s mod 32 = s - (192::nat)"
  "224 \<le> s \<Longrightarrow> s < 240 \<Longrightarrow> s mod 16 = s - (224::nat)"
  "240 \<le> s \<Longrightarrow> s < 248 \<Longrightarrow> s mod 8 = s - (240::nat)"
  using lead_mod(1) [of "s - 192"] lead_mod(2) [of "s - 224"] lead_mod(3) [of "s - 240"]
  by simp_all

lemma rune2_valid:
  assumes "0xC2 \<le> s0" "s0 < 0xE0" "0x80 \<le> s1" "s1 \<le> 0xBF"
  shows "ValidRune (rune2 s0 s1)"
proof -
  have m: "s0 mod 32 = s0 - 192" "s1 mod 64 = s1 - 128"
    using assms by (simp_all add: lead_mod_sub cont_mod_sub)
  obtain a b where ab: "a = s0 - 192" "b = s1 - 128"
    by simp
  have bounds: "a < 32" "b < 64"
    using assms ab by auto
  have "rune2 s0 s1 = a * 64 + b"
    by (simp add: rune2_def m ab)
  moreover have "a * 64 + b < 0xD800"
    using bounds by linarith
  ultimately show ?thesis
    by (simp add: ValidRune_def)
qed

lemma rune3_valid:
  assumes "0xE0 \<le> s0" "s0 < 0xF0"
    and "(if s0 = 0xE0 then 0xA0 else 0x80) \<le> s1"
    and "s1 \<le> (if s0 = 0xED then 0x9F else 0xBF)"
    and "0x80 \<le> s2" "s2 \<le> 0xBF"
  shows "ValidRune (rune3 s0 s1 s2)"
proof -
  have s1: "128 \<le> s1" "s1 \<le> 191"
    using assms(3,4) by (auto split: if_splits)
  have m: "s0 mod 16 = s0 - 224" "s1 mod 64 = s1 - 128" "s2 mod 64 = s2 - 128"
    using assms s1 by (simp_all add: lead_mod_sub cont_mod_sub)
  obtain a b c where abc: "a = s0 - 224" "b = s1 - 128" "c = s2 - 128"
    by simp
  have bounds: "a < 16" "b < 64" "c < 64" "a = 13 \<longrightarrow> b < 32"
    using assms s1 abc by (auto split: if_splits)
  have "rune3 s0 s1 s2 = a * 4096 + b * 64 + c"
    by (simp add: rune3_def m abc)
  moreover have "a * 4096 + b * 64 + c < 0xD800
      \<or> (0xE000 \<le> a * 4096 + b * 64 + c \<and> a * 4096 + b * 64 + c \<le> 0x10FFFF)"
  proof -
    consider "a \<le> 12" | "a = 13" | "14 \<le> a"
      by linarith
    then show ?thesis
    proof cases
      case 1
      then show ?thesis using bounds by linarith
    next
      case 2
      then have "b < 32" using bounds by simp
      then show ?thesis using 2 bounds by linarith
    next
      case 3
      then show ?thesis using bounds by linarith
    qed
  qed
  ultimately show ?thesis
    by (simp add: ValidRune_def)
qed

lemma rune4_valid:
  assumes "0xF0 \<le> s0" "s0 \<le> 0xF4"
    and "(if s0 = 0xF0 then 0x90 else 0x80) \<le> s1"
    and "s1 \<le> (if s0 = 0xF4 then 0x8F else 0xBF)"
    and "0x80 \<le> s2" "s2 \<le> 0xBF" "0x80 \<le> s3" "s3 \<le> 0xBF"
  shows "ValidRune (rune4 s0 s1 s2 s3)"
proof -
  have s1: "128 \<le> s1" "s1 \<le> 191"
    using assms(3,4) by (auto split: if_splits)
  have m: "s0 mod 8 = s0 - 240" "s1 mod 64 = s1 - 128" "s2 mod 64 = s2 - 128"
    "s3 mod 64 = s3 - 128"
    using assms s1 by (simp_all add: lead_mod_sub cont_mod_sub)
  obtain a b c d where abcd: "a = s0 - 240" "b = s1 - 128" "c = s2 - 128" "d = s3 - 128"
    by simp
  have bounds: "a \<le> 4" "b < 64" "c < 64" "d < 64" "a = 0 \<longrightarrow> 16 \<le> b" "a = 4 \<longrightarrow> b < 16"
    using assms s1 abcd by (auto split: if_splits)
  have "rune4 s0 s1 s2 s3 = a * 262144 + b * 4096 + c * 64 + d"
    by (simp add: rune4_def m abcd)
  moreover have "0xE000 \<le> a * 262144 + b * 4096 + c * 64 + d
      \<and> a * 262144 + b * 4096 + c * 64 + d \<le> 0x10FFFF"
  proof -
    consider "a = 0" | "1 \<le> a" "a \<le> 3" | "a = 4"
      using bounds by linarith
    then show ?thesis
    proof cases
      case 1
      then have "16 \<le> b" using bounds by simp
      then show ?thesis using 1 bounds by linarith
    next
      case 2
      then show ?thesis using bounds by linarith
    next
      case 3
      then have "b < 16" using bounds by simp
      then show ?thesis using 3 bounds by linarith
    qed
  qed
  ultimately show ?thesis
    by (simp add: ValidRune_def)
qed

lemma DecodeRuneInString_cases:
  "fst (DecodeRuneInString s) = RuneError
   \<or> fst (DecodeRuneInString s) < 0x80
   \<or> (\<exists>s0 s1. fst (DecodeRuneInString s) = rune2 s0 s1
         \<and> 0xC2 \<le> s0 \<and> s0 < 0xE0 \<and> 0x80 \<le> s1 \<and> s1 \<le> 0xBF)
   \<or> (\<exists>s0 s1 s2. fst (DecodeRuneInString s) = rune3 s0 s1 s2
         \<and> 0xE0 \<le> s0 \<and> s0 < 0xF0 \<and> (if s0 = 0xE0 then 0xA0 else 0x80) \<le> s1
         \<and> s1 \<le> (if s0 = 0xED then 0x9F else 0xBF) \<and> 0x80 \<le> s2 \<and> s2 \<le> 0xBF)
   \<or> (\<exists>s0 s1 s2 s3. fst (DecodeRuneInString s) = rune4 s0 s1 s2 s3
         \<and> 0xF0 \<le> s0 \<and> s0 \<le> 0xF4 \<and> (if s0 = 0xF0 then 0x90 else 0x80) \<le> s1
         \<and> s1 \<le> (if s0 = 0xF4 then 0x8F else 0xBF) \<and> 0x80 \<le> s2 \<and> s2 \<le> 0xBF
         \<and> 0x80 \<le> s3 \<and> s3 \<le> 0xBF)"
proof (cases s)
  case Nil
  then show ?thesis by simp
next
  case (Cons c0 rest)
  let ?s0 = "byte c0"
  consider "?s0 < 0x80" | "0x80 \<le> ?s0" "?s0 < 0xC2 \<or> 0xF4 < ?s0"
    | "0xC2 \<le> ?s0" "?s0 < 0xE0" | "0xE0 \<le> ?s0" "?s0 < 0xF0" | "0xF0 \<le> ?s0" "?s0 \<le> 0xF4"
    by linarith
  then show ?thesis
  proof cases
    case 1
    then show ?thesis by (simp add: Cons Let_def RuneSelf_def)
  next
    case 2
    then show ?thesis by (auto simp: Cons Let_def RuneSelf_def)
  next
    case 3
    have "fst (DecodeRuneInString s) = RuneError
      \<or> (fst (DecodeRuneInString s) = rune2 ?s0 (byte (rest ! 0))
          \<and> 0x80 \<le> byte (rest ! 0) \<and> byte (rest ! 0) \<le> 0xBF)"
      using 3 by (simp add: Cons Let_def RuneSelf_def)
    then show ?thesis using 3 by blast
  next
    case 4
    have "fst (DecodeRuneInString s) = RuneError
      \<or> (fst (DecodeRuneInString s) = rune3 ?s0 (byte (rest ! 0)) (byte (rest ! 1))
          \<and> (if ?s0 = 0xE0 then 0xA0 else 0x80) \<le> byte (rest ! 0)
          \<and> byte (rest ! 0) \<le> (if ?s0 = 0xED then 0x9F else 0xBF)
          \<and> 0x80 \<le> byte (rest ! 1) \<and> byte (rest ! 1) \<le> 0xBF)"
      using 4 by (simp add: Cons Let_def RuneSelf_def)
    then show ?thesis using 4 by blast
  next
    case 5
    have "fst (DecodeRuneInString s) = RuneError
      \<or> (fst (DecodeRuneInString s)
            = rune4 ?s0 (byte (rest ! 0)) (byte (rest ! 1)) (byte (rest ! 2))
          \<and> (if ?s0 = 0xF0 then 0x90 else 0x80) \<le> byte (rest ! 0)
          \<and> byte (rest ! 0) \<le> (if ?s0 = 0xF4 then 0x8F else 0xBF)
          \<and> 0x80 \<le> byte (rest ! 1) \<and> byte (rest ! 1) \<le> 0xBF
          \<and> 0x80 \<le> byte (rest ! 2) \<and> byte (rest ! 2) \<le> 0xBF)"
      using 5 by (simp add: Cons Let_def RuneSelf_def)
    then show ?thesis using 5 by blast
  qed
qed

lemma DecodeRuneInString_valid: "ValidRune (fst (DecodeRuneInString s))"
  using DecodeRuneInString_cases [of s]
  by (auto simp: ValidRune_RuneError rune2_valid rune3_valid rune4_valid)
    (simp add: ValidRune_def)

lemma modifyFirstLetter_ToUpper:
  "DecodeRuneInString s = (r, wid) \<Longrightarrow>
   modifyFirstLetter s (strings_ToUpper uTo) = EncodeRune (unicode_ToUpper uTo r) @ drop wid s"
  using DecodeRuneInString_valid [of s]
  by (simp add: modifyFirstLetter_def strings_ToUpper_def strings_Map_EncodeRune)

section \<open>Properties of the field parser\<close>

lemma NewField_two_parts:
  assumes "CHR '':'' \<in> set value"
    and "name = TrimSpace (take (nat (Index value CHR '':'')) value)"
    and "ty = TrimSpace (drop (nat (Index value CHR '':'') + 1) value)"
  shows "NewField uTo value =
     (if LastIndex ty CHR ''/'' < LastIndex ty CHR ''.'' then
        (\<lparr>Kind = FieldKindCustomType, Name = modifyFirstLetter name (strings_ToUpper uTo),
          Type = ty\<rparr>, if ty = [] then Some TypeIsRequired else None)
      else if LastIndex ty CHR ''.'' = -1 then
        (\<lparr>Kind = FieldKindBuiltInOnly, Name = modifyFirstLetter name (strings_ToUpper uTo),
          Type = ty\<rparr>, if ty = [] then Some TypeIsRequired else None)
      else (FieldFlag_zero, Some ErrInvalidFormat))"
  unfolding NewField_def SplitN2_some [OF assms(1)]
  by (simp add: Let_def assms(2,3) TrimSpace_idem Validate_def
      modifyFirstLetter_ToUpper_nonempty FieldKindDefault_def FieldKindBuiltInOnly_def
      FieldKindCustomType_def)

lemma NewField_one_part:
  assumes "CHR '':'' \<notin> set value"
  shows "NewField uTo value =
     (\<lparr>Kind = FieldKindDefault,
       Name = modifyFirstLetter (TrimSpace value) (strings_ToUpper uTo), Type = []\<rparr>, None)"
  unfolding NewField_def SplitN2_none [OF assms]
  by (simp add: Let_def Validate_def modifyFirstLetter_ToUpper_nonempty)

lemma NewField_Name:
  "snd (NewField uTo value) \<noteq> Some ErrInvalidFormat \<Longrightarrow>
   Name (fst (NewField uTo value))
     = modifyFirstLetter (TrimSpace (hd (SplitN2 value CHR '':''))) (strings_ToUpper uTo)"
proof (cases "CHR '':'' \<in> set value")
  case True
  assume "snd (NewField uTo value) \<noteq> Some ErrInvalidFormat"
  then show ?thesis
    using NewField_two_parts [OF True refl refl, of uTo]
    by (simp add: SplitN2_some [OF True] split: if_splits)
next
  case False
  then show ?thesis
    by (simp add: NewField_one_part SplitN2_none)
qed

lemma ascii_upper: "unicode_ToUpper uTo 117 = 85" "unicode_ToUpper uTo 85 = 85"
  by (simp_all add: unicode_ToUpper_def MaxASCII_def)

section \<open>Properties of the field resolver\<close>

lemma switchKind_cases:
  assumes "switchKind f field sp = Inr (g, sp')"
  shows "(Kind f = FieldKindDefault \<and> g = field\<lparr>FieldType := ''interface{}''\<rparr> \<and> sp' = sp)
       \<or> (Kind f = FieldKindBuiltInOnly \<and> g = field\<lparr>FieldType := Type f\<rparr> \<and> sp' = sp)
       \<or> (Kind f = FieldKindCustomType \<and> 0 \<le> LastIndex (Type f) CHR ''.''
            \<and> g = (SetPackage (take (nat (LastIndex (Type f) CHR ''.'')) (Type f)) field)
                    \<lparr>FieldType := drop (nat (LastIndex (take (nat (LastIndex (Type f) CHR ''.''))
                        (Type f)) CHR ''/'' + 1)) (Type f)\<rparr>
            \<and> sp' = insert (take (nat (LastIndex (Type f) CHR ''.'')) (Type f)) sp)"
  using assms by (auto simp: switchKind_def Let_def split: if_splits)

lemma switchKind_seenPkgs:
  "switchKind f field sp =
     (case switchKind f field {} of
        Inl e \<Rightarrow> Inl e
      | Inr (g, sp0) \<Rightarrow>
          Inr (g, if Kind f = FieldKindCustomType
                  then insert (take (nat (LastIndex (Type f) CHR ''.'')) (Type f)) sp else sp))"
  by (simp add: switchKind_def Let_def FieldKindDefault_def FieldKindBuiltInOnly_def
      FieldKindCustomType_def)

lemma fieldsLoop_step:
  "fieldsLoop D (f # fs) (g, sf, sp) =
     (if \<not> passesChecks D f then
        (case switchKind f (newGenField D f) {} of
           Inl e \<Rightarrow> Inl e
         | Inr (field, sp0) \<Rightarrow> Inl (InvalidField (Name f) (the (fieldValidate D field))))
      else if FieldName (resolvedField D f) \<in> sf
        then Inl (FieldIsDuplicated (FieldName (resolvedField D f)))
      else fieldsLoop D fs
             (g @ [resolvedField D f], insert (FieldName (resolvedField D f)) sf,
              if Kind f = FieldKindCustomType
              then insert (take (nat (LastIndex (Type f) CHR ''.'')) (Type f)) sp else sp))"
  by (subst fieldsLoop.simps, subst switchKind_seenPkgs)
    (auto simp: Let_def passesChecks_def resolvedField_def split: sum.splits option.splits)

lemma resolvedField_FieldName: "FieldName (resolvedField D f) = Name f"
  by (auto simp: resolvedField_def switchKind_def newGenField_def SetPackage_def Let_def
      split: sum.splits)

lemma fieldsLoop_Inr:
  "fieldsLoop D fs (g, sf, sp) = Inr (g', sf', sp') \<Longrightarrow>
     g' = g @ map (resolvedField D) fs
     \<and> sf' = sf \<union> Name ` set fs
     \<and> sp' = sp \<union> (\<lambda>f. take (nat (LastIndex (Type f) CHR ''.'')) (Type f))
                     ` {f \<in> set fs. Kind f = FieldKindCustomType}
     \<and> distinct (map Name fs) \<and> Name ` set fs \<inter> sf = {}
     \<and> (\<forall>f \<in> set fs. passesChecks D f)"
proof (induction fs arbitrary: g sf sp)
  case Nil
  then show ?case by simp
next
  case (Cons f fs)
  from Cons.prems have p: "passesChecks D f"
    by (auto simp add: fieldsLoop_step simp del: fieldsLoop.simps split: if_splits sum.splits)
  from Cons.prems p have n: "Name f \<notin> sf"
    by (auto simp add: fieldsLoop_step resolvedField_FieldName simp del: fieldsLoop.simps
        split: if_splits)
  from Cons.prems p n have
    "fieldsLoop D fs (g @ [resolvedField D f], insert (Name f) sf,
        if Kind f = FieldKindCustomType
        then insert (take (nat (LastIndex (Type f) CHR ''.'')) (Type f)) sp else sp)
      = Inr (g', sf', sp')"
    by (simp add: fieldsLoop_step resolvedField_FieldName del: fieldsLoop.simps)
  from Cons.IH [OF this] show ?case
    using p n by auto
qed

lemma ParseFields_Inr:
  assumes "ParseFields D pkg version fs = Inr (gp, gfs)"
  shows "gfs = map (resolvedField D) fs"
    and "distinct (map Name fs)"
    and "\<forall>f \<in> set fs. passesChecks D f"
    and "gp = \<lparr>PackageName = pkg,
               ImportPackages = sort (mapRange D (insert ''context''
                 ((\<lambda>f. take (nat (LastIndex (Type f) CHR ''.'')) (Type f))
                    ` {f \<in> set fs. Kind f = FieldKindCustomType}))),
               Version = version\<rparr>"
proof -
  obtain g' sf' sp' where l: "fieldsLoop D fs ([], {}, {''context''}) = Inr (g', sf', sp')"
    using assms by (auto simp: ParseFields_def split: sum.splits)
  note inv = fieldsLoop_Inr [OF l]
  have r: "gfs = g'" "gp = \<lparr>PackageName = pkg, ImportPackages = sort (mapRange D sp'),
      Version = version\<rparr>"
    using assms l by (auto simp: ParseFields_def Let_def split: option.splits)
  show "gfs = map (resolvedField D) fs" using inv r by simp
  show "distinct (map Name fs)" using inv by simp
  show "\<forall>f \<in> set fs. passesChecks D f" using inv by simp
  show "gp = \<lparr>PackageName = pkg,
               ImportPackages = sort (mapRange D (insert ''context''
                 ((\<lambda>f. take (nat (LastIndex (Type f) CHR ''.'')) (Type f))
                    ` {f \<in> set fs. Kind f = FieldKindCustomType}))),
               Version = version\<rparr>"
    using inv r by simp
qed

lemma ParseFields_imports:
  assumes "ParseFields D pkg version fs = Inr (gp, gfs)"
    and "rangeVisitsKeysOnce (mapRange D)"
  shows "set (ImportPackages gp) = insert ''context''
           ((\<lambda>f. take (nat (LastIndex (Type f) CHR ''.'')) (Type f))
              ` {f \<in> set fs. Kind f = FieldKindCustomType})"
    and "distinct (ImportPackages gp)"
    and "sorted (ImportPackages gp)"
proof -
  let ?S = "insert ''context'' ((\<lambda>f. take (nat (LastIndex (Type f) CHR ''.'')) (Type f))
              ` {f \<in> set fs. Kind f = FieldKindCustomType})"
  have fin: "finite ?S" by simp
  then have v: "set (mapRange D ?S) = ?S" "distinct (mapRange D ?S)"
    using assms(2) unfolding rangeVisitsKeysOnce_def by blast+
  have i: "ImportPackages gp = sort (mapRange D ?S)"
    using ParseFields_Inr(4) [OF assms(1)] by simp
  show "set (ImportPackages gp) = ?S" using i v by simp
  show "distinct (ImportPackages gp)" using i v by simp
  show "sorted (ImportPackages gp)" using i by simp
qed

lemma fieldsLoop_mapRange:
  "fieldsLoop (D\<lparr>mapRange := r\<rparr>) fs st = fieldsLoop D fs st"
proof (induction fs arbitrary: st)
  case Nil
  then show ?case by simp
next
  case (Cons f fs)
  obtain g sf sp where st: "st = (g, sf, sp)" by (cases st)
  have n: "newGenField (D\<lparr>mapRange := r\<rparr>) f = newGenField D f"
    by (simp add: newGenField_def)
  show ?case
    unfolding st by (simp add: n Cons.IH Let_def split: sum.splits option.splits)
qed

lemma sort_range_unique:
  assumes "rangeVisitsKeysOnce r1" "rangeVisitsKeysOnce r2" "finite S"
  shows "sort (r1 S) = sort (r2 S)"
proof -
  have "set (r1 S) = S" "distinct (r1 S)" "set (r2 S) = S" "distinct (r2 S)"
    using assms unfolding rangeVisitsKeysOnce_def by blast+
  then show ?thesis
    by (intro sorted_distinct_set_unique) simp_all
qed

lemma fieldsLoop_finite:
  "fieldsLoop D fs (g, sf, sp) = Inr (g', sf', sp') \<Longrightarrow> finite sp \<Longrightarrow> finite sp'"
  using fieldsLoop_Inr [of D fs g sf sp g' sf' sp'] by simp

lemma ParseFields_mapRange:
  assumes "rangeVisitsKeysOnce r1" "rangeVisitsKeysOnce r2"
  shows "ParseFields (D\<lparr>mapRange := r1\<rparr>) pkg version fs
       = ParseFields (D\<lparr>mapRange := r2\<rparr>) pkg version fs"
proof (cases "fieldsLoop D fs ([], {}, {''context''})")
  case (Inl e)
  then show ?thesis by (simp add: ParseFields_def fieldsLoop_mapRange)
next
  case (Inr st)
  obtain g' sf' sp' where st: "st = (g', sf', sp')" by (cases st)
  have "finite sp'"
    using fieldsLoop_finite [of D fs "[]" "{}" "{''context''}" g' sf' sp'] Inr st by simp
  then have "sort (r1 sp') = sort (r2 sp')"
    using sort_range_unique [OF assms] by simp
  then show ?thesis
    using Inr st
    by (simp add: ParseFields_def fieldsLoop_mapRange Let_def split: option.splits)
qed

lemma LastIndex_take:
  "c \<notin> set (drop k s) \<Longrightarrow> LastIndex (take k s) c = LastIndex s c"
proof (induction s arbitrary: k)
  case Nil
  then show ?case by simp
next
  case (Cons x xs)
  show ?case
  proof (cases k)
    case 0
    then have "c \<notin> set (x # xs)" using Cons.prems by simp
    then have "LastIndex (x # xs) c = -1" using LastIndex_minus_one_iff by blast
    then show ?thesis using 0 by simp
  next
    case (Suc j)
    then have "c \<notin> set (drop j xs)" using Cons.prems by simp
    then have "LastIndex (take j xs) c = LastIndex xs c" by (rule Cons.IH)
    then show ?thesis using Suc by (simp add: Let_def)
  qed
qed

lemma LastIndex_take_dot:
  assumes "LastIndex ty CHR ''/'' < LastIndex ty CHR ''.''"
  shows "LastIndex (take (nat (LastIndex ty CHR ''.'')) ty) CHR ''/'' = LastIndex ty CHR ''/''"
proof (cases "CHR ''/'' \<in> set ty")
  case True
  have "Suc (nat (LastIndex ty CHR ''/'')) \<le> nat (LastIndex ty CHR ''.'')"
    using assms LastIndex_ge [of ty "CHR ''/''"] LastIndex_neg_iff [of ty "CHR ''/''"] True
    by linarith
  then have "set (drop (nat (LastIndex ty CHR ''.'')) ty)
      \<subseteq> set (drop (Suc (nat (LastIndex ty CHR ''/''))) ty)"
    by (rule set_drop_subset_set_drop)
  then have "CHR ''/'' \<notin> set (drop (nat (LastIndex ty CHR ''.'')) ty)"
    using LastIndex_last [OF True] by blast
  then show ?thesis by (rule LastIndex_take)
next
  case False
  then have "CHR ''/'' \<notin> set (drop (nat (LastIndex ty CHR ''.'')) ty)"
    using in_set_dropD by fastforce
  then show ?thesis by (rule LastIndex_take)
qed

lemma resolvedField_Default:
  "Kind f = FieldKindDefault \<Longrightarrow>
   resolvedField D f = (newGenField D f)\<lparr>FieldType := ''interface{}''\<rparr>"
  by (simp add: resolvedField_def switchKind_def)

lemma resolvedField_BuiltInOnly:
  "Kind f = FieldKindBuiltInOnly \<Longrightarrow>
   resolvedField D f = (newGenField D f)\<lparr>FieldType := Type f\<rparr>"
  by (simp add: resolvedField_def switchKind_def FieldKindDefault_def FieldKindBuiltInOnly_def)

lemma resolvedField_CustomType:
  "Kind f = FieldKindCustomType \<Longrightarrow> 0 \<le> LastIndex (Type f) CHR ''.'' \<Longrightarrow>
   resolvedField D f =
     (newGenField D f)
       \<lparr>FieldType := drop (nat (LastIndex (take (nat (LastIndex (Type f) CHR ''.'')) (Type f))
                        CHR ''/'' + 1)) (Type f),
        packageAlias := Some (take (nat (LastIndex (Type f) CHR ''.'')) (Type f))\<rparr>"
  by (simp add: resolvedField_def switchKind_def FieldKindDefault_def FieldKindBuiltInOnly_def
      FieldKindCustomType_def Let_def SetPackage_def)

lemma NewField_CustomType:
  assumes "NewField uTo value = (f, e)" and "Kind f = FieldKindCustomType"
  shows "LastIndex (Type f) CHR ''/'' < LastIndex (Type f) CHR ''.''" and "e = None"
proof -
  have c: "CHR '':'' \<in> set value"
  proof (rule ccontr)
    assume "CHR '':'' \<notin> set value"
    then show False
      using assms
      by (auto simp: NewField_one_part FieldKindDefault_def FieldKindCustomType_def)
  qed
  let ?ty = "TrimSpace (drop (nat (Index value CHR '':'') + 1) value)"
  have lt: "LastIndex ?ty CHR ''/'' < LastIndex ?ty CHR ''.''"
    using assms NewField_two_parts [OF c refl refl, of uTo]
    by (auto simp: FieldFlag_zero_def FieldKindBuiltInOnly_def FieldKindCustomType_def
        split: if_splits)
  then have eq: "(f, e) = (\<lparr>Kind = FieldKindCustomType,
      Name = modifyFirstLetter (TrimSpace (take (nat (Index value CHR '':'')) value))
               (strings_ToUpper uTo),
      Type = ?ty\<rparr>, if ?ty = [] then Some TypeIsRequired else None)"
    using assms(1) NewField_two_parts [OF c refl refl, of uTo] by simp
  then have ty: "Type f = ?ty" by auto
  show "LastIndex (Type f) CHR ''/'' < LastIndex (Type f) CHR ''.''"
    using lt ty by simp
  have "?ty \<noteq> []"
    using lt LastIndex_ge [of ?ty "CHR ''/''"] by auto
  then show "e = None" using eq by simp
qed

subsection \<open>The order of Go strings\<close>

text \<open>
  \<open>sort.StringSlice\<close> compares with \<open><\<close> on strings, which Go defines byte by byte;
  the order on \<open>string\<close> used by \<open>sort\<close> and \<open>sorted\<close> here is that order.
\<close>

lemma string_less_bytewise:
  "([] < y # ys) = True"
  "(x # xs < []) = False"
  "(x # xs < y # ys) = (byte x < byte y \<or> x = y \<and> xs < ys)"
  by (simp_all add: less_char_def)

subsection \<open>Duplicate names\<close>

lemma fieldsLoop_duplicate:
  assumes "\<forall>f \<in> set pre. passesChecks D f" and "passesChecks D f0"
    and "distinct (map Name pre)" and "Name ` set pre \<inter> sf = {}"
    and "Name f0 \<in> sf \<union> Name ` set pre"
  shows "fieldsLoop D (pre @ f0 # post) (g, sf, sp) = Inl (FieldIsDuplicated (Name f0))"
  using assms
proof (induction pre arbitrary: g sf sp)
  case Nil
  then show ?case
    by (simp add: fieldsLoop_step resolvedField_FieldName del: fieldsLoop.simps)
next
  case (Cons f pre)
  have p: "passesChecks D f" and n: "Name f \<notin> sf"
    using Cons.prems by auto
  have "fieldsLoop D (pre @ f0 # post)
      (g @ [resolvedField D f], insert (Name f) sf,
       if Kind f = FieldKindCustomType
       then insert (take (nat (LastIndex (Type f) CHR ''.'')) (Type f)) sp else sp)
    = Inl (FieldIsDuplicated (Name f0))"
    using Cons.prems by (intro Cons.IH) auto
  then show ?case
    using p n by (simp add: fieldsLoop_step resolvedField_FieldName del: fieldsLoop.simps)
qed

lemma ParseFields_not_distinct:
  assumes "\<not> distinct (map Name fs)"
  shows "\<exists>e. ParseFields D pkg version fs = Inl e"
proof (cases "ParseFields D pkg version fs")
  case (Inl e)
  then show ?thesis by blast
next
  case (Inr r)
  obtain gp gfs where "r = (gp, gfs)" by (cases r)
  then show ?thesis
    using ParseFields_Inr(2) [of D pkg version fs gp gfs] Inr assms by simp
qed

subsection \<open>The order of the range, and the type text of a custom type\<close>

lemma generateFile_mapRange:
  assumes "rangeVisitsKeysOnce r1" "rangeVisitsKeysOnce r2"
  shows "generateFile (D\<lparr>mapRange := r1\<rparr>) pkg version vals
       = generateFile (D\<lparr>mapRange := r2\<rparr>) pkg version vals"
  by (simp add: generateFile_def ParseFields_mapRange [OF assms] split: sum.splits)

lemma resolvedField_CustomType_dot:
  assumes "Kind f = FieldKindCustomType" and "0 \<le> LastIndex (Type f) CHR ''.''"
  shows "CHR ''.'' \<in> set (FieldType (resolvedField D f))"
proof -
  let ?ty = "Type f"
  let ?dot = "LastIndex ?ty CHR ''.''"
  let ?s = "LastIndex (take (nat ?dot) ?ty) CHR ''/''"
  have dot_in: "CHR ''.'' \<in> set ?ty"
    using assms(2) LastIndex_neg_iff [of ?ty "CHR ''.''"] by auto
  have at: "nat ?dot < length ?ty" "?ty ! nat ?dot = CHR ''.''"
    using LastIndex_last [OF dot_in] by simp_all
  have "length (take (nat ?dot) ?ty) = nat ?dot"
    using at(1) by simp
  then have "?s < int (nat ?dot)"
    using LastIndex_less [of "take (nat ?dot) ?ty" "CHR ''/''"] by simp
  then have le: "nat (?s + 1) \<le> nat ?dot"
    by linarith
  have "drop (nat (?s + 1)) ?ty
      = drop (nat (?s + 1)) (take (nat ?dot) ?ty) @ ?ty ! nat ?dot # drop (Suc (nat ?dot)) ?ty"
    by (rule drop_split_at [OF le at(1)])
  then have "CHR ''.'' \<in> set (drop (nat (?s + 1)) ?ty)"
    using at(2) by simp
  then show ?thesis
    by (simp add: resolvedField_CustomType [OF assms])
qed

lemma passesChecks_kinds:
  assumes "passesChecks D f"
  shows "Kind f = FieldKindDefault \<or> Kind f = FieldKindBuiltInOnly
    \<or> (Kind f = FieldKindCustomType \<and> 0 \<le> LastIndex (Type f) CHR ''.'')"
  using assms
  by (auto simp: passesChecks_def switchKind_def Let_def split: if_splits)

subsection \<open>The examples, evaluated\<close>

lemma exampleFlags_eq:
  "exampleFlags =
     [\<lparr>Kind = FieldKindDefault, Name = ''UserID'', Type = []\<rparr>,
      \<lparr>Kind = FieldKindBuiltInOnly, Name = ''TraceIDs'', Type = ''[]string''\<rparr>,
      \<lparr>Kind = FieldKindCustomType, Name = ''ClientUUID'', Type = ''github.com/google/uuid.UUID''\<rparr>,
      \<lparr>Kind = FieldKindCustomType, Name = ''SessionUUID'',
        Type = ''github.com/google/uuid.NullUUID''\<rparr>]"
  by code_simp

lemma exampleFlags_resolved:
  "ParseFields exampleDeps ''gen'' ''v0.0.1'' exampleFlags
     = Inr (examplePackage, exampleGenFields)"
  by code_simp

lemma exampleFlags_resolved_rev:
  "ParseFields exampleDepsRev ''gen'' ''v0.0.1'' exampleFlags
     = Inr (examplePackage, exampleGenFields)"
  by code_simp

lemma exampleDeps_range: "rangeVisitsKeysOnce (mapRange exampleDeps)"
  by (simp add: rangeVisitsKeysOnce_def exampleDeps_def)

lemma exampleDepsRev_range: "rangeVisitsKeysOnce (mapRange exampleDepsRev)"
  by (simp add: rangeVisitsKeysOnce_def exampleDepsRev_def exampleDeps_def)

section \<open>The claims about the field parser\<close>

text \<open>
  C1. For an input \<open>name:type\<close> the parser classifies by the last \<open>.\<close> and the last
  \<open>/\<close> of the trimmed type text \<open>ty\<close>: a dot after the last slash (or a dot and no
  slash) gives kind \<open>CustomType\<close>; no dot gives kind \<open>BuiltInOnly\<close>; a dot and a slash
  with the last dot before the last slash gives the \<open>ErrInvalidFormat\<close> sentinel and the
  zero descriptor. In the first two cases the descriptor's type is \<open>ty\<close> as it is.
  The theorem also shows the error returned beside the descriptor: none, except "type is
  required" beside the \<open>BuiltInOnly\<close> descriptor of an empty type text.
\<close>

theorem NewField_classification:
  assumes "CHR '':'' \<in> set value"
    and "name = TrimSpace (take (nat (Index value CHR '':'')) value)"
    and "ty = TrimSpace (drop (nat (Index value CHR '':'') + 1) value)"
  shows "(CHR ''.'' \<in> set ty
            \<and> (CHR ''/'' \<notin> set ty \<or> LastIndex ty CHR ''/'' < LastIndex ty CHR ''.'') \<longrightarrow>
          NewField uTo value =
            (\<lparr>Kind = FieldKindCustomType,
              Name = modifyFirstLetter name (strings_ToUpper uTo), Type = ty\<rparr>, None))
       \<and> (CHR ''.'' \<notin> set ty \<longrightarrow>
          NewField uTo value =
            (\<lparr>Kind = FieldKindBuiltInOnly,
              Name = modifyFirstLetter name (strings_ToUpper uTo), Type = ty\<rparr>,
             if ty = [] then Some TypeIsRequired else None))
       \<and> (CHR ''.'' \<in> set ty \<and> CHR ''/'' \<in> set ty
            \<and> LastIndex ty CHR ''.'' \<le> LastIndex ty CHR ''/'' \<longrightarrow>
          NewField uTo value = (FieldFlag_zero, Some ErrInvalidFormat))"
proof (intro conjI impI)
  assume a: "CHR ''.'' \<in> set ty
    \<and> (CHR ''/'' \<notin> set ty \<or> LastIndex ty CHR ''/'' < LastIndex ty CHR ''.'')"
  then have "0 \<le> LastIndex ty CHR ''.''"
    using LastIndex_neg_iff [of ty "CHR ''.''"] by simp
  moreover have "CHR ''/'' \<notin> set ty \<Longrightarrow> LastIndex ty CHR ''/'' = -1"
    by (simp add: LastIndex_minus_one_iff)
  ultimately have lt: "LastIndex ty CHR ''/'' < LastIndex ty CHR ''.''"
    using a by auto
  have "ty \<noteq> []" using a by auto
  then show "NewField uTo value =
      (\<lparr>Kind = FieldKindCustomType,
        Name = modifyFirstLetter name (strings_ToUpper uTo), Type = ty\<rparr>, None)"
    using lt by (simp add: NewField_two_parts [OF assms])
next
  assume a: "CHR ''.'' \<notin> set ty"
  then have d: "LastIndex ty CHR ''.'' = -1"
    by (simp add: LastIndex_minus_one_iff)
  have "\<not> LastIndex ty CHR ''/'' < -1"
    using LastIndex_ge [of ty "CHR ''/''"] by simp
  then show "NewField uTo value =
      (\<lparr>Kind = FieldKindBuiltInOnly,
        Name = modifyFirstLetter name (strings_ToUpper uTo), Type = ty\<rparr>,
       if ty = [] then Some TypeIsRequired else None)"
    using d by (simp add: NewField_two_parts [OF assms])
next
  assume a: "CHR ''.'' \<in> set ty \<and> CHR ''/'' \<in> set ty
    \<and> LastIndex ty CHR ''.'' \<le> LastIndex ty CHR ''/''"
  then have "LastIndex ty CHR ''.'' \<noteq> -1"
    by (simp add: LastIndex_minus_one_iff)
  then show "NewField uTo value = (FieldFlag_zero, Some ErrInvalidFormat)"
    using a by (simp add: NewField_two_parts [OF assms])
qed

theorem NewField_classification_witness:
  "NewField asciiCaseTable ''user:github.com/user/pkg.User''
     = (\<lparr>Kind = FieldKindCustomType, Name = ''User'', Type = ''github.com/user/pkg.User''\<rparr>, None)
   \<and> NewField asciiCaseTable ''ids: []string''
     = (\<lparr>Kind = FieldKindBuiltInOnly, Name = ''Ids'', Type = ''[]string''\<rparr>, None)
   \<and> NewField asciiCaseTable ''x:''
     = (\<lparr>Kind = FieldKindBuiltInOnly, Name = ''X'', Type = []\<rparr>, Some TypeIsRequired)
   \<and> NewField asciiCaseTable ''x:example.com/pkg''
     = (FieldFlag_zero, Some ErrInvalidFormat)"
proof -
  let ?v1 = "''user:github.com/user/pkg.User''"
  let ?v2 = "''ids: []string''"
  let ?v3 = "''x:''"
  let ?v4 = "''x:example.com/pkg''"
  have c: "CHR '':'' \<in> set ?v1" "CHR '':'' \<in> set ?v2" "CHR '':'' \<in> set ?v3"
    "CHR '':'' \<in> set ?v4"
    by simp_all
  have e1: "TrimSpace (take (nat (Index ?v1 CHR '':'')) ?v1) = ''user''"
    "TrimSpace (drop (nat (Index ?v1 CHR '':'') + 1) ?v1) = ''github.com/user/pkg.User''"
    by code_simp+
  have e2: "TrimSpace (take (nat (Index ?v2 CHR '':'')) ?v2) = ''ids''"
    "TrimSpace (drop (nat (Index ?v2 CHR '':'') + 1) ?v2) = ''[]string''"
    by code_simp+
  have e3: "TrimSpace (take (nat (Index ?v3 CHR '':'')) ?v3) = ''x''"
    "TrimSpace (drop (nat (Index ?v3 CHR '':'') + 1) ?v3) = []"
    by code_simp+
  have e4: "TrimSpace (take (nat (Index ?v4 CHR '':'')) ?v4) = ''x''"
    "TrimSpace (drop (nat (Index ?v4 CHR '':'') + 1) ?v4) = ''example.com/pkg''"
    by code_simp+
  have n: "modifyFirstLetter ''user'' (strings_ToUpper asciiCaseTable) = ''User''"
    "modifyFirstLetter ''ids'' (strings_ToUpper asciiCaseTable) = ''Ids''"
    "modifyFirstLetter ''x'' (strings_ToUpper asciiCaseTable) = ''X''"
    by code_simp+
  have l: "LastIndex ''github.com/user/pkg.User'' CHR ''/'' < LastIndex ''github.com/user/pkg.User'' CHR ''.''"
    "LastIndex ''example.com/pkg'' CHR ''.'' \<le> LastIndex ''example.com/pkg'' CHR ''/''"
    by code_simp+
  show ?thesis
    using NewField_classification [OF c(1) e1 [symmetric], of asciiCaseTable]
      NewField_classification [OF c(2) e2 [symmetric], of asciiCaseTable]
      NewField_classification [OF c(3) e3 [symmetric], of asciiCaseTable]
      NewField_classification [OF c(4) e4 [symmetric], of asciiCaseTable]
      n l
    by simp
qed

text \<open>
  C7. Parsing upper-cases the first rune of the trimmed name, decoded as UTF-8, and leaves
  the bytes after it as they are: with \<open>(r, wid)\<close> the first rune of the name and its
  width, as \<open>utf8.DecodeRuneInString\<close> gives them, the field name is the encoding of
  \<open>unicode.ToUpper(r)\<close> followed by the name without its first \<open>wid\<close> bytes. In
  particular, when the name is the encoding of a rune \<open>r'\<close> followed by \<open>rest\<close>, the
  field name is the encoding of the upper case of \<open>r'\<close> followed by \<open>rest\<close>. So
  \<open>userID\<close> and \<open>UserID\<close> both give the field name \<open>UserID\<close>, whatever the case
  table says above ASCII. (The parser has no descriptor to name when it returns
  \<open>ErrInvalidFormat\<close>.)
\<close>

theorem NewField_upper_cases_first_rune:
  assumes "name = TrimSpace (hd (SplitN2 value CHR '':''))"
    and "snd (NewField uTo value) \<noteq> Some ErrInvalidFormat"
  shows "(DecodeRuneInString name = (r, wid) \<longrightarrow>
           Name (fst (NewField uTo value)) = EncodeRune (unicode_ToUpper uTo r) @ drop wid name)
    \<and> (name = EncodeRune r' @ rest \<and> ValidRune r' \<longrightarrow>
           Name (fst (NewField uTo value)) = EncodeRune (unicode_ToUpper uTo r') @ rest)
    \<and> NewField uTo ''userID'' = (\<lparr>Kind = FieldKindDefault, Name = ''UserID'', Type = []\<rparr>, None)
    \<and> NewField uTo ''UserID'' = (\<lparr>Kind = FieldKindDefault, Name = ''UserID'', Type = []\<rparr>, None)"
proof (intro conjI impI)
  assume "DecodeRuneInString name = (r, wid)"
  then show "Name (fst (NewField uTo value))
      = EncodeRune (unicode_ToUpper uTo r) @ drop wid name"
    using assms by (simp add: NewField_Name modifyFirstLetter_ToUpper)
next
  assume "name = EncodeRune r' @ rest \<and> ValidRune r'"
  then show "Name (fst (NewField uTo value)) = EncodeRune (unicode_ToUpper uTo r') @ rest"
    using assms by (simp add: NewField_Name modifyFirstLetter_valid)
next
  have t: "TrimSpace ''userID'' = ''userID''"
    by code_simp
  have e: "''userID'' = EncodeRune 117 @ ''serID''" "EncodeRune 85 = ''U''"
    by code_simp+
  have v: "ValidRune 117"
    by (simp add: ValidRune_def)
  have "modifyFirstLetter ''userID'' (strings_ToUpper uTo) = ''UserID''"
    unfolding e(1) modifyFirstLetter_valid [OF v] by (simp add: ascii_upper e(2))
  then show "NewField uTo ''userID''
      = (\<lparr>Kind = FieldKindDefault, Name = ''UserID'', Type = []\<rparr>, None)"
    by (simp add: NewField_one_part t)
next
  have t: "TrimSpace ''UserID'' = ''UserID''"
    by code_simp
  have e: "''UserID'' = EncodeRune 85 @ ''serID''"
    by code_simp
  have v: "ValidRune 85"
    by (simp add: ValidRune_def)
  have "modifyFirstLetter ''UserID'' (strings_ToUpper uTo) = ''UserID''"
    by (subst e, subst modifyFirstLetter_valid [OF v]) (simp add: ascii_upper e [symmetric])
  then show "NewField uTo ''UserID''
      = (\<lparr>Kind = FieldKindDefault, Name = ''UserID'', Type = []\<rparr>, None)"
    by (simp add: NewField_one_part t)
qed

theorem NewField_upper_cases_first_rune_witness:
  "Name (fst (NewField exampleCaseTable
       [CHR 0x20, CHR 0xC3, CHR 0xA9, CHR ''t'', CHR 0xC3, CHR 0xA9, CHR '':'', CHR ''i'', CHR ''n'',
        CHR ''t'']))
     = [CHR 0xC3, CHR 0x89, CHR ''t'', CHR 0xC3, CHR 0xA9]
   \<and> Name (fst (NewField exampleCaseTable [CHR 0xFF, CHR ''a'']))
     = [CHR 0xEF, CHR 0xBF, CHR 0xBD, CHR ''a'']"
proof -
  let ?v = "[CHR 0x20, CHR 0xC3, CHR 0xA9, CHR ''t'', CHR 0xC3, CHR 0xA9, CHR '':'', CHR ''i'',
    CHR ''n'', CHR ''t'']"
  let ?w = "[CHR 0xFF, CHR ''a'']"
  have t: "TrimSpace (hd (SplitN2 ?v CHR '':''))
      = EncodeRune 0xE9 @ [CHR ''t'', CHR 0xC3, CHR 0xA9]"
    by code_simp
  have v: "ValidRune 0xE9"
    by (simp add: ValidRune_def)
  have ok: "snd (NewField exampleCaseTable ?v) \<noteq> Some ErrInvalidFormat"
    "snd (NewField exampleCaseTable ?w) \<noteq> Some ErrInvalidFormat"
    by code_simp (simp add: NewField_one_part)
  have u: "EncodeRune (unicode_ToUpper exampleCaseTable 0xE9) = [CHR 0xC3, CHR 0x89]"
    by code_simp
  have dw: "DecodeRuneInString ?w = (RuneError, 1)"
    by (simp add: Let_def RuneSelf_def)
  have dl: "DecodeLastRuneInString ?w = (97, 1)"
    by (simp add: DecodeLastRuneInString_def RuneSelf_def)
  have "TrimLeft ?w = ?w"
    by (rule TrimLeft_fixed) (simp add: Let_def RuneSelf_def)
  moreover have "TrimRight ?w = ?w"
    by (rule TrimRight_fixed) (simp add: dl IsSpace_def)
  ultimately have w: "TrimSpace (hd (SplitN2 ?w CHR '':'')) = ?w"
    by (simp add: SplitN2_none TrimSpace_def)
  have uw: "unicode_ToUpper exampleCaseTable RuneError = RuneError"
    by (simp add: unicode_ToUpper_def exampleCaseTable_def RuneError_def MaxASCII_def)
  have 1: "Name (fst (NewField exampleCaseTable ?v)) = [CHR 0xC3, CHR 0x89, CHR ''t'', CHR 0xC3, CHR 0xA9]"
    using NewField_upper_cases_first_rune [OF refl ok(1),
        of _ _ "0xE9" "[CHR ''t'', CHR 0xC3, CHR 0xA9]"] t v u
    by simp
  have 2: "Name (fst (NewField exampleCaseTable ?w)) = [CHR 0xEF, CHR 0xBF, CHR 0xBD, CHR ''a'']"
    using NewField_upper_cases_first_rune [OF w [symmetric] ok(2), of RuneError 1] dw uw
      EncodeRune_RuneError
    by simp
  show ?thesis
    using 1 2 by simp
qed

text \<open>
  C10. Parsing the empty string, or a string of white space only, does not return the
  "name is required" error: decoding the first rune of the empty name gives
  \<open>(RuneError, 0)\<close>, the name becomes the encoding of the upper case of U+FFFD, which is
  not empty, and validation passes with kind \<open>Default\<close>. With Go's case table, where
  U+FFFD is its own upper case, the name is the three bytes EF BF BD.
\<close>

theorem NewField_empty_name:
  assumes "CHR '':'' \<notin> set value" and "TrimSpace value = []"
  shows "DecodeRuneInString (TrimSpace value) = (RuneError, 0)
    \<and> NewField uTo value
        = (\<lparr>Kind = FieldKindDefault, Name = EncodeRune (uTo UpperCase RuneError), Type = []\<rparr>,
           None)
    \<and> Name (fst (NewField uTo value)) \<noteq> []
    \<and> snd (NewField uTo value) \<noteq> Some NameIsRequired
    \<and> (uTo UpperCase RuneError = RuneError \<longrightarrow>
         Name (fst (NewField uTo value)) = [CHR 0xEF, CHR 0xBF, CHR 0xBD])"
proof -
  have u: "unicode_ToUpper uTo RuneError = uTo UpperCase RuneError"
    by (simp add: unicode_ToUpper_def MaxASCII_def RuneError_def)
  have "modifyFirstLetter [] (strings_ToUpper uTo) = EncodeRune (uTo UpperCase RuneError)"
    by (simp add: modifyFirstLetter_def strings_ToUpper_def
        strings_Map_EncodeRune [OF ValidRune_RuneError] u)
  then have n: "NewField uTo value
      = (\<lparr>Kind = FieldKindDefault, Name = EncodeRune (uTo UpperCase RuneError), Type = []\<rparr>,
         None)"
    by (simp add: NewField_one_part [OF assms(1)] assms(2))
  show ?thesis
    using n by (simp add: assms(2) EncodeRune_nonempty EncodeRune_RuneError)
qed

theorem NewField_empty_name_witness:
  "NewField asciiCaseTable []
     = (\<lparr>Kind = FieldKindDefault, Name = [CHR 0xEF, CHR 0xBF, CHR 0xBD], Type = []\<rparr>, None)
   \<and> NewField asciiCaseTable [CHR 0x20, CHR 0x09, CHR 0xC2, CHR 0xA0]
     = (\<lparr>Kind = FieldKindDefault, Name = [CHR 0xEF, CHR 0xBF, CHR 0xBD], Type = []\<rparr>, None)"
proof -
  let ?w = "[CHR 0x20, CHR 0x09, CHR 0xC2, CHR 0xA0]"
  have c: "CHR '':'' \<notin> set []" "CHR '':'' \<notin> set ?w"
    by simp_all
  have t: "TrimSpace [] = []" "TrimSpace ?w = []"
    by code_simp+
  have u: "asciiCaseTable UpperCase RuneError = RuneError"
    by (simp add: asciiCaseTable_def)
  show ?thesis
    using NewField_empty_name [OF c(1) t(1), of asciiCaseTable]
      NewField_empty_name [OF c(2) t(2), of asciiCaseTable] u EncodeRune_RuneError
    by simp
qed

section \<open>The claims about the field resolver\<close>

text \<open>
  C2, as stated: for a \<open>CustomType\<close> field parsed from \<open>name:pkg/path.Type\<close> the
  resolver sets the emitted type text to the bare type name, the segment after the last
  \<open>.\<close> of the type text. The code does not: \<open>field.FieldType = f.Type[slash+1:]\<close> keeps
  the last segment of the import path as qualifier. The README's field
  \<open>ClientUUID:github.com/google/uuid.UUID\<close> gets the type text \<open>uuid.UUID\<close>, as the
  README's generated file shows, not \<open>UUID\<close>.
\<close>

theorem ParseFields_custom_type_text_counterexample:
  "NewField exampleCaseTable ''ClientUUID:github.com/google/uuid.UUID''
     = (\<lparr>Kind = FieldKindCustomType, Name = ''ClientUUID'',
         Type = ''github.com/google/uuid.UUID''\<rparr>, None)
   \<and> ParseFields exampleDeps ''gen'' ''v0.0.1''
         [\<lparr>Kind = FieldKindCustomType, Name = ''ClientUUID'',
           Type = ''github.com/google/uuid.UUID''\<rparr>]
     = Inr (\<lparr>PackageName = ''gen'', ImportPackages = [''context'', ''github.com/google/uuid''],
              Version = ''v0.0.1''\<rparr>,
            [\<lparr>FieldName = ''ClientUUID'', KeyName = ''clientUUIDKey'', FieldType = ''uuid.UUID'',
               packageAlias = Some ''github.com/google/uuid''\<rparr>])
   \<and> drop (nat (LastIndex ''github.com/google/uuid.UUID'' CHR ''.'') + 1)
         ''github.com/google/uuid.UUID'' = ''UUID''
   \<and> ''uuid.UUID'' \<noteq> ''UUID''"
  by code_simp

text \<open>
  C2, amended: for a \<open>CustomType\<close> field parsed from \<open>name:pkg/path.Type\<close> the resolver
  sets the emitted type text to the type text after its last \<open>/\<close> (all of it when there
  is none): the last segment of the import path, a dot, and the bare type name, so
  \<open>path.Type\<close>. It is never the bare type name alone.
\<close>

theorem ParseFields_custom_type_text:
  assumes "NewField uTo value = (f, e)" and "Kind f = FieldKindCustomType"
    and "ParseFields D pkg version fs = Inr (gp, gfs)"
    and "i < length fs" and "fs ! i = f"
  shows "FieldType (gfs ! i) = drop (nat (LastIndex (Type f) CHR ''/'' + 1)) (Type f)
    \<and> FieldType (gfs ! i)
        = drop (nat (LastIndex (Type f) CHR ''/'' + 1))
            (take (nat (LastIndex (Type f) CHR ''.'')) (Type f))
          @ CHR ''.'' # drop (nat (LastIndex (Type f) CHR ''.'') + 1) (Type f)
    \<and> FieldType (gfs ! i) \<noteq> drop (nat (LastIndex (Type f) CHR ''.'') + 1) (Type f)"
proof -
  let ?ty = "Type f"
  let ?dot = "LastIndex ?ty CHR ''.''"
  let ?slash = "LastIndex ?ty CHR ''/''"
  have lt: "?slash < ?dot"
    using NewField_CustomType(1) [OF assms(1,2)] .
  have slash_ge: "-1 \<le> ?slash"
    by (rule LastIndex_ge)
  then have dot_ge: "0 \<le> ?dot"
    using lt by linarith
  then have dot_in: "CHR ''.'' \<in> set ?ty"
    using LastIndex_neg_iff [of ?ty "CHR ''.''"] by auto
  have g: "gfs ! i = resolvedField D f"
    using ParseFields_Inr(1) [OF assms(3)] assms(4,5) by simp
  have t1: "FieldType (gfs ! i) = drop (nat (?slash + 1)) ?ty"
    unfolding g resolvedField_CustomType [OF assms(2) dot_ge]
    by (simp add: LastIndex_take_dot [OF lt])
  have le: "nat (?slash + 1) \<le> nat ?dot"
    using lt slash_ge by linarith
  have at: "nat ?dot < length ?ty" "?ty ! nat ?dot = CHR ''.''"
    using LastIndex_last [OF dot_in] by simp_all
  have t2: "drop (nat (?slash + 1)) ?ty
      = drop (nat (?slash + 1)) (take (nat ?dot) ?ty)
        @ CHR ''.'' # drop (nat ?dot + 1) ?ty"
    using drop_split_at [OF le at(1)] at(2) by simp
  have t3: "drop (nat (?slash + 1)) ?ty \<noteq> drop (nat ?dot + 1) ?ty"
  proof
    assume "drop (nat (?slash + 1)) ?ty = drop (nat ?dot + 1) ?ty"
    then have "length (drop (nat (?slash + 1)) ?ty) = length (drop (nat ?dot + 1) ?ty)"
      by (rule arg_cong)
    then show False
      using le at(1) by simp
  qed
  show ?thesis
    using t1 t2 t3 by simp
qed

theorem ParseFields_custom_type_text_witness:
  "NewField exampleCaseTable ''SessionUUID:github.com/google/uuid.NullUUID''
     = (exampleFlags ! 3, None)
   \<and> Kind (exampleFlags ! 3) = FieldKindCustomType
   \<and> ParseFields exampleDeps ''gen'' ''v0.0.1'' exampleFlags
       = Inr (examplePackage, exampleGenFields)
   \<and> FieldType (exampleGenFields ! 3) = ''uuid.NullUUID''"
proof -
  have n: "NewField exampleCaseTable ''SessionUUID:github.com/google/uuid.NullUUID''
      = (exampleFlags ! 3, None)"
    by code_simp
  have k: "Kind (exampleFlags ! 3) = FieldKindCustomType"
    by code_simp
  have l: "(3::nat) < length exampleFlags"
    by code_simp
  have d: "drop (nat (LastIndex (Type (exampleFlags ! 3)) CHR ''/'' + 1))
      (Type (exampleFlags ! 3)) = ''uuid.NullUUID''"
    by code_simp
  show ?thesis
    using ParseFields_custom_type_text [OF n k exampleFlags_resolved l refl] n k d
      exampleFlags_resolved
    by simp
qed

text \<open>
  C3. For a \<open>CustomType\<close> descriptor the resolver adds to the import set the type text
  left of the last \<open>.\<close>, whole; the import list of a successful resolution holds
  \<open>context\<close>, these import paths and nothing else.
\<close>

theorem ParseFields_custom_import_path:
  assumes "ParseFields D pkg version fs = Inr (gp, gfs)"
    and "rangeVisitsKeysOnce (mapRange D)"
    and "i < length fs" and "Kind (fs ! i) = FieldKindCustomType"
  shows "take (nat (LastIndex (Type (fs ! i)) CHR ''.'')) (Type (fs ! i))
           \<in> set (ImportPackages gp)
    \<and> set (ImportPackages gp)
        = insert ''context''
            ((\<lambda>f. take (nat (LastIndex (Type f) CHR ''.'')) (Type f))
               ` {f \<in> set fs. Kind f = FieldKindCustomType})"
proof -
  let ?f = "fs ! i"
  have mem: "?f \<in> set fs"
    using assms(3) by simp
  have s: "set (ImportPackages gp)
      = insert ''context''
          ((\<lambda>f. take (nat (LastIndex (Type f) CHR ''.'')) (Type f))
             ` {f \<in> set fs. Kind f = FieldKindCustomType})"
    by (rule ParseFields_imports(1) [OF assms(1,2)])
  show ?thesis
    using s mem assms(4) by auto
qed

theorem ParseFields_custom_import_path_witness:
  "NewField exampleCaseTable ''ClientUUID:github.com/google/uuid.UUID''
     = (exampleFlags ! 2, None)
   \<and> Type (exampleFlags ! 2) = ''github.com/google/uuid.UUID''
   \<and> ParseFields exampleDeps ''gen'' ''v0.0.1'' exampleFlags
       = Inr (examplePackage, exampleGenFields)
   \<and> ''github.com/google/uuid'' \<in> set (ImportPackages examplePackage)
   \<and> set (ImportPackages examplePackage) = {''context'', ''github.com/google/uuid''}"
proof -
  have n: "NewField exampleCaseTable ''ClientUUID:github.com/google/uuid.UUID''
      = (exampleFlags ! 2, None)"
    "Type (exampleFlags ! 2) = ''github.com/google/uuid.UUID''"
    by code_simp+
  have k: "Kind (exampleFlags ! 2) = FieldKindCustomType"
    by code_simp
  have l: "(2::nat) < length exampleFlags"
    by code_simp
  have t: "take (nat (LastIndex (Type (exampleFlags ! 2)) CHR ''.'')) (Type (exampleFlags ! 2))
      = ''github.com/google/uuid''"
    by code_simp
  have i: "ImportPackages examplePackage = [''context'', ''github.com/google/uuid'']"
    by (simp add: examplePackage_def)
  have "take (nat (LastIndex (Type (exampleFlags ! 2)) CHR ''.'')) (Type (exampleFlags ! 2))
      \<in> set (ImportPackages examplePackage)"
    using ParseFields_custom_import_path [OF exampleFlags_resolved exampleDeps_range l k]
    by (rule conjunct1)
  then show ?thesis
    using n i exampleFlags_resolved unfolding t by simp
qed

text \<open>
  C4, as stated: for a descriptor of kind \<open>Default\<close> the resolver sets the final type text
  to the sentinel \<open>any\<close>. The code writes \<open>interface{}\<close>
  (\<open>field.FieldType = "interface{}"\<close>), which is also what \<open>TestRun\<close>'s case "default
  field type must be interface{}" expects.
\<close>

theorem ParseFields_default_type_counterexample:
  "NewField exampleCaseTable ''UserID''
     = (\<lparr>Kind = FieldKindDefault, Name = ''UserID'', Type = []\<rparr>, None)
   \<and> ParseFields exampleDeps ''gen'' []
         [\<lparr>Kind = FieldKindDefault, Name = ''UserID'', Type = []\<rparr>]
     = Inr (\<lparr>PackageName = ''gen'', ImportPackages = [''context''], Version = []\<rparr>,
            [\<lparr>FieldName = ''UserID'', KeyName = ''userIDKey'', FieldType = ''interface{}'',
               packageAlias = None\<rparr>])
   \<and> ''interface{}'' \<noteq> ''any''"
  by code_simp

text \<open>
  C4, amended: for every descriptor of kind \<open>Default\<close> the resolver sets the field's final
  type text to \<open>interface{}\<close>.
\<close>

theorem ParseFields_default_type:
  assumes "ParseFields D pkg version fs = Inr (gp, gfs)"
    and "i < length fs" and "Kind (fs ! i) = FieldKindDefault"
  shows "FieldType (gfs ! i) = ''interface{}''"
proof -
  have "gfs ! i = resolvedField D (fs ! i)"
    using ParseFields_Inr(1) [OF assms(1)] assms(2) by simp
  then show ?thesis
    by (simp add: resolvedField_Default [OF assms(3)])
qed

theorem ParseFields_default_type_witness:
  "ParseFields exampleDeps ''gen'' ''v0.0.1'' exampleFlags
     = Inr (examplePackage, exampleGenFields)
   \<and> Kind (exampleFlags ! 0) = FieldKindDefault
   \<and> FieldType (exampleGenFields ! 0) = ''interface{}''"
proof -
  have k: "Kind (exampleFlags ! 0) = FieldKindDefault"
    by code_simp
  have l: "(0::nat) < length exampleFlags"
    by code_simp
  show ?thesis
    using ParseFields_default_type [OF exampleFlags_resolved l k] k exampleFlags_resolved
    by simp
qed

text \<open>
  C6. The import list of a successful resolution contains \<open>context\<close> (also when no field
  has a custom type), has no duplicates, and is sorted in the lexicographic order of the
  bytes, whatever the order in which the map of seen packages is ranged over.
\<close>

theorem ParseFields_import_list:
  assumes "ParseFields D pkg version fs = Inr (gp, gfs)"
    and "rangeVisitsKeysOnce (mapRange D)"
  shows "''context'' \<in> set (ImportPackages gp)
    \<and> distinct (ImportPackages gp)
    \<and> sorted (ImportPackages gp)"
  using ParseFields_imports [OF assms] by simp

theorem ParseFields_import_list_witness:
  "ParseFields exampleDepsRev ''gen'' ''v0.0.1'' exampleFlags
     = Inr (examplePackage, exampleGenFields)
   \<and> ImportPackages examplePackage = [''context'', ''github.com/google/uuid'']
   \<and> ''context'' \<in> set (ImportPackages examplePackage)
   \<and> distinct (ImportPackages examplePackage)
   \<and> sorted (ImportPackages examplePackage)
   \<and> ParseFields exampleDepsRev ''gen'' ''v0.0.1'' []
       = Inr (\<lparr>PackageName = ''gen'', ImportPackages = [''context''], Version = ''v0.0.1''\<rparr>, [])"
proof -
  have e: "ParseFields exampleDepsRev ''gen'' ''v0.0.1'' []
      = Inr (\<lparr>PackageName = ''gen'', ImportPackages = [''context''], Version = ''v0.0.1''\<rparr>, [])"
    by code_simp
  show ?thesis
    using ParseFields_import_list [OF exampleFlags_resolved_rev exampleDepsRev_range]
      ParseFields_import_list [OF e exampleDepsRev_range]
      exampleFlags_resolved_rev e
    by (simp add: examplePackage_def)
qed

text \<open>
  C5, as stated: for every sequence of descriptors with two equal field names, resolution
  fails at the first collision with an error that names the duplicated field. The loop
  body checks the kind and validates the field before it looks the name up, so another
  error can come first: two descriptors of an unsupported kind give
  \<open>ErrUnsupportedFlagFormat\<close>, which names no field, and with a field validator that
  rejects the type \<open>int[]\<close> (as \<open>TestRun\<close>'s "not built-in types" cases expect of
  \<open>gen.Field.Validate\<close>) a colliding descriptor of that type gives the "invalid field"
  error, not the duplicate one.
\<close>

theorem ParseFields_duplicate_counterexample:
  "ParseFields exampleDeps ''gen'' []
     [\<lparr>Kind = 3, Name = ''UserID'', Type = []\<rparr>, \<lparr>Kind = 3, Name = ''UserID'', Type = []\<rparr>]
   = Inl ErrUnsupportedFlagFormat
   \<and> ParseFields (exampleDeps\<lparr>fieldValidate :=
          (\<lambda>field. if FieldType field = ''int[]'' then Some (GenError ''invalid type'') else None)\<rparr>)
        ''gen'' []
        [\<lparr>Kind = FieldKindBuiltInOnly, Name = ''UserID'', Type = ''int''\<rparr>,
         \<lparr>Kind = FieldKindBuiltInOnly, Name = ''UserID'', Type = ''int[]''\<rparr>]
   = Inl (InvalidField ''UserID'' (GenError ''invalid type''))"
  by code_simp

text \<open>
  C5, amended: for every sequence of descriptors with two equal field names, resolution
  returns an error and no generation model. When every descriptor up to and including the
  first collision gets through the kind switch and the field validation, the error is
  the duplicate-field error, raised at the first collision and naming the duplicated
  field.
\<close>

theorem ParseFields_duplicate:
  assumes "i < j" and "j < length fs" and "Name (fs ! i) = Name (fs ! j)"
  shows "(\<exists>e. ParseFields D pkg version fs = Inl e)
    \<and> ((\<forall>k \<le> j. passesChecks D (fs ! k)) \<and> distinct (map Name (take j fs)) \<longrightarrow>
        ParseFields D pkg version fs = Inl (FieldIsDuplicated (Name (fs ! j))))"
proof (intro conjI impI)
  have "\<not> distinct (map Name fs)"
    using assms by (auto simp: distinct_conv_nth) (metis less_trans nat_neq_iff)
  then show "\<exists>e. ParseFields D pkg version fs = Inl e"
    by (rule ParseFields_not_distinct)
next
  assume a: "(\<forall>k \<le> j. passesChecks D (fs ! k)) \<and> distinct (map Name (take j fs))"
  have split: "fs = take j fs @ fs ! j # drop (Suc j) fs"
    using assms(2) by (simp add: id_take_nth_drop [symmetric])
  have pre: "\<forall>f \<in> set (take j fs). passesChecks D f"
  proof
    fix f assume "f \<in> set (take j fs)"
    then obtain k where "k < j" "f = fs ! k"
      using assms(2) by (auto simp: in_set_conv_nth)
    then show "passesChecks D f" using a by simp
  qed
  have "fs ! i \<in> set (take j fs)"
    using assms(1,2) by (auto simp: in_set_conv_nth intro!: exI [of _ i])
  then have mem: "Name (fs ! j) \<in> {} \<union> Name ` set (take j fs)"
    using assms(3) by (metis Un_iff image_eqI)
  have "fieldsLoop D (take j fs @ fs ! j # drop (Suc j) fs) ([], {}, {''context''})
      = Inl (FieldIsDuplicated (Name (fs ! j)))"
    using pre a mem by (intro fieldsLoop_duplicate) auto
  then have "fieldsLoop D fs ([], {}, {''context''}) = Inl (FieldIsDuplicated (Name (fs ! j)))"
    using split by simp
  then show "ParseFields D pkg version fs = Inl (FieldIsDuplicated (Name (fs ! j)))"
    by (simp add: ParseFields_def)
qed

theorem ParseFields_duplicate_witness:
  "NewField exampleCaseTable ''userID'' = (\<lparr>Kind = FieldKindDefault, Name = ''UserID'', Type = []\<rparr>, None)
   \<and> NewField exampleCaseTable ''UserID:int''
       = (\<lparr>Kind = FieldKindBuiltInOnly, Name = ''UserID'', Type = ''int''\<rparr>, None)
   \<and> ParseFields exampleDeps ''gen'' []
        [\<lparr>Kind = FieldKindDefault, Name = ''UserID'', Type = []\<rparr>,
         \<lparr>Kind = FieldKindBuiltInOnly, Name = ''TraceIDs'', Type = ''[]string''\<rparr>,
         \<lparr>Kind = FieldKindBuiltInOnly, Name = ''UserID'', Type = ''int''\<rparr>]
       = Inl (FieldIsDuplicated ''UserID'')"
proof -
  let ?fs = "[\<lparr>Kind = FieldKindDefault, Name = ''UserID'', Type = []\<rparr>,
         \<lparr>Kind = FieldKindBuiltInOnly, Name = ''TraceIDs'', Type = ''[]string''\<rparr>,
         \<lparr>Kind = FieldKindBuiltInOnly, Name = ''UserID'', Type = ''int''\<rparr>]"
  have n: "NewField exampleCaseTable ''userID''
      = (\<lparr>Kind = FieldKindDefault, Name = ''UserID'', Type = []\<rparr>, None)"
    "NewField exampleCaseTable ''UserID:int''
      = (\<lparr>Kind = FieldKindBuiltInOnly, Name = ''UserID'', Type = ''int''\<rparr>, None)"
    by code_simp+
  have h: "(0::nat) < 2" "(2::nat) < length ?fs" "Name (?fs ! 0) = Name (?fs ! 2)"
    by simp_all
  have p: "passesChecks exampleDeps (?fs ! 0)" "passesChecks exampleDeps (?fs ! 1)"
    "passesChecks exampleDeps (?fs ! 2)"
    by code_simp+
  have "\<forall>k \<le> 2. passesChecks exampleDeps (?fs ! k)"
  proof (intro allI impI)
    fix k :: nat assume "k \<le> 2"
    then have "k = 0 \<or> k = 1 \<or> k = 2" by linarith
    then show "passesChecks exampleDeps (?fs ! k)" using p by auto
  qed
  moreover have "distinct (map Name (take 2 ?fs))"
    by simp
  ultimately show ?thesis
    using ParseFields_duplicate [OF h, of exampleDeps "''gen''" "[]"] n
    by simp
qed

text \<open>
  C9. Resolution, and emission after it, are deterministic although the imports are
  collected in a map: two runs that differ in the order in which the map is ranged over
  (each visiting every key once) give the same result, error or package and fields, the
  same emitted text, and the same file from the same flag values; the import list is
  sorted before it is used. Everything else in \<open>ParseFields\<close> is a function of its
  arguments.
\<close>

theorem ParseFields_deterministic:
  assumes "rangeVisitsKeysOnce r1" and "rangeVisitsKeysOnce r2"
  shows "ParseFields (D\<lparr>mapRange := r1\<rparr>) pkg version fs
           = ParseFields (D\<lparr>mapRange := r2\<rparr>) pkg version fs
    \<and> map_sum id (\<lambda>(genPkg, genFields). Generate genPkg genFields)
          (ParseFields (D\<lparr>mapRange := r1\<rparr>) pkg version fs)
        = map_sum id (\<lambda>(genPkg, genFields). Generate genPkg genFields)
            (ParseFields (D\<lparr>mapRange := r2\<rparr>) pkg version fs)
    \<and> generateFile (D\<lparr>mapRange := r1\<rparr>) pkg version vals
        = generateFile (D\<lparr>mapRange := r2\<rparr>) pkg version vals"
  using ParseFields_mapRange [OF assms, of D pkg version fs]
    generateFile_mapRange [OF assms, of D pkg version vals]
  by simp

theorem ParseFields_deterministic_witness:
  "mapRange exampleDeps {''github.com/google/uuid'', ''context''}
     = [''context'', ''github.com/google/uuid'']
   \<and> mapRange exampleDepsRev {''github.com/google/uuid'', ''context''}
     = [''github.com/google/uuid'', ''context'']
   \<and> ParseFields exampleDeps ''gen'' ''v0.0.1'' exampleFlags
     = ParseFields exampleDepsRev ''gen'' ''v0.0.1'' exampleFlags
   \<and> generateFile exampleDeps ''gen'' ''v0.0.1'' [''User:github.com/google/uuid.UUID'']
     = generateFile exampleDepsRev ''gen'' ''v0.0.1'' [''User:github.com/google/uuid.UUID'']"
proof -
  have r: "rangeVisitsKeysOnce sorted_list_of_set"
    "rangeVisitsKeysOnce (\<lambda>S. rev (sorted_list_of_set S))"
    by (simp_all add: rangeVisitsKeysOnce_def)
  have d: "exampleDeps\<lparr>mapRange := sorted_list_of_set\<rparr> = exampleDeps"
    "exampleDeps\<lparr>mapRange := (\<lambda>S. rev (sorted_list_of_set S))\<rparr> = exampleDepsRev"
    by (simp_all add: exampleDeps_def exampleDepsRev_def)
  have m: "mapRange exampleDeps {''github.com/google/uuid'', ''context''}
     = [''context'', ''github.com/google/uuid'']"
    "mapRange exampleDepsRev {''github.com/google/uuid'', ''context''}
     = [''github.com/google/uuid'', ''context'']"
    by code_simp+
  show ?thesis
    using ParseFields_deterministic [OF r, of exampleDeps "''gen''" "''v0.0.1''" exampleFlags
        "[''User:github.com/google/uuid.UUID'']"] m
    unfolding d by simp
qed

section \<open>The claim about the emitter\<close>

text \<open>
  C8. In every generated file the getter of a field of kind \<open>Default\<close> returns the stored
  value alone, with result type \<open>interface{}\<close> and no presence flag; the getter of a
  field with a type other than the placeholder returns the pair \<open>(T, bool)\<close> of the
  type assertion \<open>v, ok := ctx.Value(key{}).(T)\<close>, and the getter is part of the
  generated file. The theorem after it evaluates an example, and the two files that
  \<open>TestRun\<close> expects for \<open>-field UserID\<close> and \<open>-field field1:int\<close>, byte for byte.
\<close>

theorem Generate_getter:
  assumes "ParseFields D pkg version fs = Inr (gp, gfs)" and "i < length fs"
  shows "(Kind (fs ! i) = FieldKindDefault \<longrightarrow>
           emitGetter (gfs ! i) =
             ''// Get '' @ Name (fs ! i) @ '' retrieves the '' @ Name (fs ! i)
               @ '' from the context.\<newline>''
             @ ''func Get'' @ Name (fs ! i) @ ''(ctx context.Context) interface{} {\<newline>''
             @ ''    v := ctx.Value('' @ KeyName (gfs ! i) @ ''{})\<newline>''
             @ ''    return v\<newline>''
             @ ''}\<newline>\<newline>'')
    \<and> (Kind (fs ! i) \<noteq> FieldKindDefault \<and> Type (fs ! i) \<noteq> ''interface{}'' \<longrightarrow>
           emitGetter (gfs ! i) =
             ''// Get '' @ Name (fs ! i) @ '' retrieves the '' @ Name (fs ! i)
               @ '' from the context.\<newline>''
             @ ''func Get'' @ Name (fs ! i) @ ''(ctx context.Context) (''
               @ FieldType (gfs ! i) @ '', bool) {\<newline>''
             @ ''    v, ok := ctx.Value('' @ KeyName (gfs ! i) @ ''{}).(''
               @ FieldType (gfs ! i) @ '')\<newline>''
             @ ''    return v, ok\<newline>''
             @ ''}\<newline>\<newline>'')
    \<and> (\<exists>before after. Generate gp gfs = before @ emitGetter (gfs ! i) @ after)"
proof (intro conjI impI)
  let ?f = "fs ! i"
  have g: "gfs ! i = resolvedField D ?f"
    using ParseFields_Inr(1) [OF assms(1)] assms(2) by simp
  have n: "FieldName (gfs ! i) = Name ?f"
    by (simp add: g resolvedField_FieldName)
  have p: "passesChecks D ?f"
    using ParseFields_Inr(3) [OF assms(1)] assms(2) by simp
  {
    assume "Kind ?f = FieldKindDefault"
    then have "FieldType (gfs ! i) = ''interface{}''"
      by (simp add: g resolvedField_Default)
    then show "emitGetter (gfs ! i) =
             ''// Get '' @ Name (fs ! i) @ '' retrieves the '' @ Name (fs ! i)
               @ '' from the context.\<newline>''
             @ ''func Get'' @ Name (fs ! i) @ ''(ctx context.Context) interface{} {\<newline>''
             @ ''    v := ctx.Value('' @ KeyName (gfs ! i) @ ''{})\<newline>''
             @ ''    return v\<newline>''
             @ ''}\<newline>\<newline>''"
      by (simp add: emitGetter_def n)
  }
  {
    assume a: "Kind ?f \<noteq> FieldKindDefault \<and> Type ?f \<noteq> ''interface{}''"
    have "FieldType (gfs ! i) \<noteq> ''interface{}''"
    proof (cases "Kind ?f = FieldKindBuiltInOnly")
      case True
      then show ?thesis
        using a by (simp add: g resolvedField_BuiltInOnly)
    next
      case False
      then have c: "Kind ?f = FieldKindCustomType" "0 \<le> LastIndex (Type ?f) CHR ''.''"
        using passesChecks_kinds [OF p] a by auto
      have "CHR ''.'' \<in> set (FieldType (gfs ! i))"
        unfolding g by (rule resolvedField_CustomType_dot [OF c])
      moreover have "CHR ''.'' \<notin> set ''interface{}''"
        by simp
      ultimately show ?thesis
        by metis
    qed
    then show "emitGetter (gfs ! i) =
             ''// Get '' @ Name (fs ! i) @ '' retrieves the '' @ Name (fs ! i)
               @ '' from the context.\<newline>''
             @ ''func Get'' @ Name (fs ! i) @ ''(ctx context.Context) (''
               @ FieldType (gfs ! i) @ '', bool) {\<newline>''
             @ ''    v, ok := ctx.Value('' @ KeyName (gfs ! i) @ ''{}).(''
               @ FieldType (gfs ! i) @ '')\<newline>''
             @ ''    return v, ok\<newline>''
             @ ''}\<newline>\<newline>''"
      by (simp add: emitGetter_def n)
  }
  let ?B = "\<lambda>f. emitKeyType f @ emitGetter f @ emitSetter f"
  have "i < length gfs"
    using ParseFields_Inr(1) [OF assms(1)] assms(2) by simp
  then have "gfs = take i gfs @ gfs ! i # drop (Suc i) gfs"
    by (rule id_take_nth_drop)
  then have "concat (map ?B gfs) = concat (map ?B (take i gfs @ gfs ! i # drop (Suc i) gfs))"
    by (rule arg_cong [where f = "\<lambda>l. concat (map ?B l)"])
  also have "\<dots> = (concat (map ?B (take i gfs)) @ emitKeyType (gfs ! i))
      @ emitGetter (gfs ! i) @ (emitSetter (gfs ! i) @ concat (map ?B (drop (Suc i) gfs)))"
    by simp
  finally have "Generate gp gfs =
      (emitHeader gp @ concat (map ?B (take i gfs)) @ emitKeyType (gfs ! i))
      @ emitGetter (gfs ! i) @ (emitSetter (gfs ! i) @ concat (map ?B (drop (Suc i) gfs)))"
    by (simp add: Generate_def)
  then show "\<exists>before after. Generate gp gfs = before @ emitGetter (gfs ! i) @ after"
    by blast
qed

theorem Generate_getter_witness:
  \<open>ParseFields exampleDeps ''gen'' ''v0.0.1'' exampleFlags
     = Inr (examplePackage, exampleGenFields)
   \<and> Kind (exampleFlags ! 0) = FieldKindDefault
   \<and> emitGetter (exampleGenFields ! 0) =
         ''// Get UserID retrieves the UserID from the context.\<newline>''
         @ ''func GetUserID(ctx context.Context) interface{} {\<newline>''
         @ ''    v := ctx.Value(userIDKey{})\<newline>''
         @ ''    return v\<newline>''
         @ ''}\<newline>\<newline>''
   \<and> Kind (exampleFlags ! 1) = FieldKindBuiltInOnly
   \<and> emitGetter (exampleGenFields ! 1) =
         ''// Get TraceIDs retrieves the TraceIDs from the context.\<newline>''
         @ ''func GetTraceIDs(ctx context.Context) ([]string, bool) {\<newline>''
         @ ''    v, ok := ctx.Value(traceIDsKey{}).([]string)\<newline>''
         @ ''    return v, ok\<newline>''
         @ ''}\<newline>\<newline>''
   \<and> generateFile exampleDeps ''gen'' [] [''UserID''] =
       Inr (''// Code generated by valctx . DO NOT EDIT.\<newline>''
         @ ''\<newline>''
         @ ''package gen\<newline>''
         @ ''\<newline>''
         @ ''import (\<newline>''
         @ ''    "context"\<newline>''
         @ '')\<newline>''
         @ ''\<newline>''
         @ ''type userIDKey struct{}\<newline>''
         @ ''\<newline>''
         @ ''// Get UserID retrieves the UserID from the context.\<newline>''
         @ ''func GetUserID(ctx context.Context) interface{} {\<newline>''
         @ ''    v := ctx.Value(userIDKey{})\<newline>''
         @ ''    return v\<newline>''
         @ ''}\<newline>''
         @ ''\<newline>''
         @ ''// SetUserID sets the UserID in the context.\<newline>''
         @ ''func SetUserID(ctx context.Context, v interface{}) context.Context {\<newline>''
         @ ''    return context.WithValue(ctx, userIDKey{}, v)\<newline>''
         @ ''}\<newline>'')
   \<and> generateFile exampleDeps ''gen'' [] [''field1:int''] =
       Inr (''// Code generated by valctx . DO NOT EDIT.\<newline>''
         @ ''\<newline>''
         @ ''package gen\<newline>''
         @ ''\<newline>''
         @ ''import (\<newline>''
         @ ''    "context"\<newline>''
         @ '')\<newline>''
         @ ''\<newline>''
         @ ''type field1Key struct{}\<newline>''
         @ ''\<newline>''
         @ ''// Get Field1 retrieves the Field1 from the context.\<newline>''
         @ ''func GetField1(ctx context.Context) (int, bool) {\<newline>''
         @ ''    v, ok := ctx.Value(field1Key{}).(int)\<newline>''
         @ ''    return v, ok\<newline>''
         @ ''}\<newline>''
         @ ''\<newline>''
         @ ''// SetField1 sets the Field1 in the context.\<newline>''
         @ ''func SetField1(ctx context.Context, v int) context.Context {\<newline>''
         @ ''    return context.WithValue(ctx, field1Key{}, v)\<newline>''
         @ ''}\<newline>'')\<close>
proof -
  have k: "Kind (exampleFlags ! 0) = FieldKindDefault"
    "Kind (exampleFlags ! 1) = FieldKindBuiltInOnly"
    "Kind (exampleFlags ! 1) \<noteq> FieldKindDefault \<and> Type (exampleFlags ! 1) \<noteq> ''interface{}''"
    by code_simp+
  have l: "(0::nat) < length exampleFlags" "(1::nat) < length exampleFlags"
    by code_simp+
  have v: "Name (exampleFlags ! 0) = ''UserID''" "KeyName (exampleGenFields ! 0) = ''userIDKey''"
    "Name (exampleFlags ! 1) = ''TraceIDs''" "KeyName (exampleGenFields ! 1) = ''traceIDsKey''"
    "FieldType (exampleGenFields ! 1) = ''[]string''"
    by code_simp+
  have f: \<open>generateFile exampleDeps ''gen'' [] [''UserID''] =
       Inr (''// Code generated by valctx . DO NOT EDIT.\<newline>''
         @ ''\<newline>''
         @ ''package gen\<newline>''
         @ ''\<newline>''
         @ ''import (\<newline>''
         @ ''    "context"\<newline>''
         @ '')\<newline>''
         @ ''\<newline>''
         @ ''type userIDKey struct{}\<newline>''
         @ ''\<newline>''
         @ ''// Get UserID retrieves the UserID from the context.\<newline>''
         @ ''func GetUserID(ctx context.Context) interface{} {\<newline>''
         @ ''    v := ctx.Value(userIDKey{})\<newline>''
         @ ''    return v\<newline>''
         @ ''}\<newline>''
         @ ''\<newline>''
         @ ''// SetUserID sets the UserID in the context.\<newline>''
         @ ''func SetUserID(ctx context.Context, v interface{}) context.Context {\<newline>''
         @ ''    return context.WithValue(ctx, userIDKey{}, v)\<newline>''
         @ ''}\<newline>'')\<close>
    \<open>generateFile exampleDeps ''gen'' [] [''field1:int''] =
       Inr (''// Code generated by valctx . DO NOT EDIT.\<newline>''
         @ ''\<newline>''
         @ ''package gen\<newline>''
         @ ''\<newline>''
         @ ''import (\<newline>''
         @ ''    "context"\<newline>''
         @ '')\<newline>''
         @ ''\<newline>''
         @ ''type field1Key struct{}\<newline>''
         @ ''\<newline>''
         @ ''// Get Field1 retrieves the Field1 from the context.\<newline>''
         @ ''func GetField1(ctx context.Context) (int, bool) {\<newline>''
         @ ''    v, ok := ctx.Value(field1Key{}).(int)\<newline>''
         @ ''    return v, ok\<newline>''
         @ ''}\<newline>''
         @ ''\<newline>''
         @ ''// SetField1 sets the Field1 in the context.\<newline>''
         @ ''func SetField1(ctx context.Context, v int) context.Context {\<newline>''
         @ ''    return context.WithValue(ctx, field1Key{}, v)\<newline>''
         @ ''}\<newline>'')\<close>
    by code_simp+
  show ?thesis
    using Generate_getter [OF exampleFlags_resolved l(1)]
      Generate_getter [OF exampleFlags_resolved l(2)]
      k v f exampleFlags_resolved
    by simp
qed

end
